theory Spec2Isabelle
  imports Complex_Main "HOL-Library.Word"
begin

section \<open>Strings\<close>

text \<open>
  A \<open>String\<close> of the program is modelled as a \<open>string\<close>, a list of characters.
  The helpers below are the members of the string class that
  \<open>AGProcessor::convertJUCEtoAGPluginID\<close> calls: \<open>indexOfChar\<close> scans from the
  front and answers \<open>-1\<close> when the character is absent, \<open>lastIndexOfChar\<close> scans
  the whole text and remembers the last hit, \<open>substring\<close> clips its range, and
  \<open>toLowerCase\<close> maps the letters \<open>A\<close> to \<open>Z\<close> to their lower case and leaves
  every other character alone.
\<close>

fun indexOfChar :: "string \<Rightarrow> char \<Rightarrow> int" where
  "indexOfChar [] c = -1"
| "indexOfChar (x # xs) c =
     (if x = c then 0
      else (let r = indexOfChar xs c in if r < 0 then -1 else r + 1))"

fun lastIndexOfChar_loop :: "string \<Rightarrow> char \<Rightarrow> int \<Rightarrow> int \<Rightarrow> int" where
  "lastIndexOfChar_loop [] c i lst = lst"
| "lastIndexOfChar_loop (x # xs) c i lst =
     lastIndexOfChar_loop xs c (i + 1) (if x = c then i else lst)"

definition lastIndexOfChar :: "string \<Rightarrow> char \<Rightarrow> int" where
  "lastIndexOfChar s c = lastIndexOfChar_loop s c 0 (-1)"

definition substring :: "string \<Rightarrow> int \<Rightarrow> int \<Rightarrow> string" where
  "substring s start en =
     (let st = (if start < 0 then 0 else start)
      in if en \<le> st then [] else take (nat (en - st)) (drop (nat st) s))"

definition substringFrom :: "string \<Rightarrow> int \<Rightarrow> string" where
  "substringFrom s start = (if start \<le> 0 then s else drop (nat start) s)"

definition toLowerChar :: "char \<Rightarrow> char" where
  "toLowerChar c =
     (if (of_char (CHR ''A'') :: nat) \<le> of_char c \<and> (of_char c :: nat) \<le> of_char (CHR ''Z'')
      then char_of ((of_char c :: nat) + 32) else c)"

definition toLowerCase :: "string \<Rightarrow> string" where
  "toLowerCase s = map toLowerChar s"

definition notHexChar :: "char \<Rightarrow> bool" where
  "notHexChar c \<longleftrightarrow>
     (of_char c :: nat) < of_char (CHR ''0'')
     \<or> ((of_char c :: nat) > of_char (CHR ''9'') \<and> (of_char c :: nat) < of_char (CHR ''a''))
     \<or> (of_char c :: nat) > of_char (CHR ''f'')"

fun onlyHexChars :: "string \<Rightarrow> bool" where
  "onlyHexChars [] = True"
| "onlyHexChars (c # cs) = (if notHexChar c then False else onlyHexChars cs)"

text \<open>
  \<open>AGProcessor::convertJUCEtoAGPluginID\<close>: every \<open>return {}\<close> of the source is
  the empty string here. The loop over \<open>fileHash\<close> is \<open>onlyHexChars\<close>, which
  stops at the first character that fails the test of the source.
\<close>

definition convertJUCEtoAGPluginID :: "string \<Rightarrow> string" where
  "convertJUCEtoAGPluginID ident =
     (let pos = indexOfChar ident (CHR ''-'') in
      if pos > -1 then
        (let format = substring ident 0 pos in
         if format \<noteq> ''AudioUnit'' \<and> format \<noteq> ''VST'' \<and> format \<noteq> ''VST3'' then []
         else
           (let name = substringFrom ident (pos + 1);
                pos2 = lastIndexOfChar name (CHR ''-'') in
            if pos2 > -1 then
              (let pluginId = substringFrom name (pos2 + 1);
                   name2 = substring name 0 pos2;
                   pos3 = lastIndexOfChar name2 (CHR ''-'') in
               if pos3 > -1 then
                 (let fileHash = toLowerCase (substringFrom name2 (pos3 + 1));
                      name3 = substring name2 0 pos3 in
                  if onlyHexChars fileHash
                  then format @ ''-'' @ name3 @ ''-'' @ pluginId
                  else [])
               else [])
            else []))
      else [])"



section \<open>Plugin descriptions and the catalog\<close>

text \<open>
  The fields of a plugin description that the server core reads. The identifier
  \<open>deprecatedUid\<close> is a 32-bit \<open>int\<close>; \<open>toHexString\<close> prints the 32 bits as an
  unsigned number with the digits \<open>0\<close> to \<open>9\<close> and \<open>a\<close> to \<open>f\<close>, without leading
  zeros, in a do-while loop that emits the lowest digit first.
\<close>

record PluginDescription =
  pluginFormatName :: string
  name :: string
  deprecatedUid :: int
  fileOrIdentifier :: string

definition hexDigit :: "nat \<Rightarrow> char" where
  "hexDigit d = ''0123456789abcdef'' ! (d mod 16)"

function hexToString_loop :: "nat \<Rightarrow> string \<Rightarrow> string" where
  "hexToString_loop v acc =
     (let acc' = hexDigit (v mod 16) # acc; v' = v div 16
      in if v' \<noteq> 0 then hexToString_loop v' acc' else acc')"
  by pat_completeness auto
termination
  by (relation "measure (\<lambda>(v, acc). v)") auto

definition toHexString :: "int \<Rightarrow> string" where
  "toHexString n = hexToString_loop (nat (n mod 2 ^ 32)) []"

definition createPluginID :: "PluginDescription \<Rightarrow> string" where
  "createPluginID d =
     pluginFormatName d @ ''-'' @ name d @ ''-'' @ toHexString (deprecatedUid d)"

text \<open>
  The catalog is the list of known plugin types. \<open>getTypeForFile\<close> is the list's
  lookup by file: the first description whose \<open>fileOrIdentifier\<close> is the argument.
\<close>

definition getTypeForFile :: "PluginDescription list \<Rightarrow> string \<Rightarrow> PluginDescription option" where
  "getTypeForFile pluglist f = find (\<lambda>desc. fileOrIdentifier desc = f) pluglist"

text \<open>
  \<open>AGProcessor::findPluginDescritpion\<close>: the loop overwrites \<open>plugdesc\<close> at every
  match, so the last matching description wins; the file lookup is the fallback.
\<close>

fun findPluginDescritpion_loop ::
  "string \<Rightarrow> string \<Rightarrow> PluginDescription list \<Rightarrow> PluginDescription option
     \<Rightarrow> PluginDescription option" where
  "findPluginDescritpion_loop ident convertedId [] plugdesc = plugdesc"
| "findPluginDescritpion_loop ident convertedId (desc # descs) plugdesc =
     (let descId = createPluginID desc
      in findPluginDescritpion_loop ident convertedId descs
           (if descId = ident \<or> descId = convertedId then Some desc else plugdesc))"

definition findPluginDescritpion :: "PluginDescription list \<Rightarrow> string \<Rightarrow> PluginDescription option" where
  "findPluginDescritpion pluglist ident =
     (let convertedId = convertJUCEtoAGPluginID ident;
          plugdesc = findPluginDescritpion_loop ident convertedId pluglist None
      in if plugdesc = None then getTypeForFile pluglist ident else plugdesc)"

section \<open>Arrays, channel sets and bus layouts\<close>

text \<open>
  The array class of the framework tolerates indices out of range: reading one gives
  the default value of the element type, removing one does nothing, and
  \<open>removeLast\<close> removes at most what is there.
\<close>

definition arrayGet :: "'a list \<Rightarrow> int \<Rightarrow> 'a \<Rightarrow> 'a" where
  "arrayGet xs i dflt = (if 0 \<le> i \<and> i < int (length xs) then xs ! nat i else dflt)"

definition arrayRemove :: "'a list \<Rightarrow> int \<Rightarrow> 'a list" where
  "arrayRemove xs i =
     (if 0 \<le> i \<and> i < int (length xs) then take (nat i) xs @ drop (Suc (nat i)) xs else xs)"

definition arrayRemoveLast :: "'a list \<Rightarrow> int \<Rightarrow> 'a list" where
  "arrayRemoveLast xs howManyToRemove =
     (if howManyToRemove > 0
      then (let k = (if howManyToRemove > int (length xs) then int (length xs) else howManyToRemove)
            in take (length xs - nat k) xs)
      else xs)"

text \<open>
  A channel set is one of the named sets the chain builds, or the empty set
  \<open>Disabled\<close>, which is also the default value of the type. \<open>DiscreteChannels n\<close>
  has \<open>n\<close> channels when \<open>n\<close> is positive and none otherwise; it is a different set
  from \<open>Mono\<close> and \<open>Stereo\<close> even when the sizes agree.
\<close>

datatype AudioChannelSet = Disabled | Mono | Stereo | DiscreteChannels int

fun channelSetSize :: "AudioChannelSet \<Rightarrow> int" where
  "channelSetSize Disabled = 0"
| "channelSetSize Mono = 1"
| "channelSetSize Stereo = 2"
| "channelSetSize (DiscreteChannels n) = (if n > 0 then n else 0)"

record BusesLayout =
  inputBuses :: "AudioChannelSet list"
  outputBuses :: "AudioChannelSet list"

definition getChannelSet :: "BusesLayout \<Rightarrow> bool \<Rightarrow> int \<Rightarrow> AudioChannelSet" where
  "getChannelSet layout isInput busIndex =
     arrayGet (if isInput then inputBuses layout else outputBuses layout) busIndex Disabled"

definition getMainInputChannels :: "BusesLayout \<Rightarrow> int" where
  "getMainInputChannels layout = channelSetSize (getChannelSet layout True 0)"

definition getMainOutputChannels :: "BusesLayout \<Rightarrow> int" where
  "getMainOutputChannels layout = channelSetSize (getChannelSet layout False 0)"

definition jmax3 :: "int \<Rightarrow> int \<Rightarrow> int \<Rightarrow> int" where
  "jmax3 a b c = max a (max b c)"

section \<open>Plugin instances, wrappers and the chain\<close>

text \<open>
  A hosted plugin instance is foreign code. The model keeps what the server core
  asks of it: its latency, whether it can process in double precision, its output
  channel count, its current bus layout and the layouts it accepts. The test
  \<open>checkBusesLayoutSupported(layout) && setBusesLayout(layout)\<close> of the source is
  \<open>checkAndSetBusesLayout\<close>: it succeeds on the layouts of \<open>supportedLayouts\<close> and
  then the layout is the plugin's current one.
\<close>

datatype ProcessingPrecision = singlePrecision | doublePrecision

record AudioPluginInstance =
  getLatencySamples :: int
  supportsDoublePrecisionProcessing :: bool
  getTotalNumOutputChannels :: int
  pluginBusesLayout :: BusesLayout
  supportedLayouts :: "BusesLayout list"
  processingPrecision :: ProcessingPrecision

definition checkAndSetBusesLayout ::
  "AudioPluginInstance \<Rightarrow> BusesLayout \<Rightarrow> bool \<times> AudioPluginInstance" where
  "checkAndSetBusesLayout plugin layout =
     (if layout \<in> set (supportedLayouts plugin)
      then (True, plugin\<lparr>pluginBusesLayout := layout\<rparr>)
      else (False, plugin))"

text \<open>
  Modelled from the spec: the declaration of the class \<open>AGProcessor\<close>, which is in
  the header \<open>ProcessorChain.hpp\<close> and not among the source files. The fields are the
  wrapper state of the spec's data model under the names the member functions use;
  the setters and getters of the header (\<open>getPlugin\<close>, \<open>setChainIndex\<close>,
  \<open>setExtraChannels\<close>, \<open>setNeedsDisabledSidechain\<close> and the like) read and write
  them. \<open>isSuspended\<close> and \<open>getTailLengthSeconds\<close> are what the accessors of these
  names answer for the wrapper. The sample rate and the block size of the wrapper
  only travel to the plugin format manager and are left out.

  Audio samples are only stored, moved and set to zero by the code below, never
  computed with, so both the \<open>float\<close> and the \<open>double\<close> samples are values of type
  \<open>real\<close>. A bypass FIFO is a list with its head first.
\<close>

record AGProcessor =
  m_id :: string
  m_plugin :: "AudioPluginInstance option"
  m_prepared :: bool
  m_lastKnownLatency :: int
  m_extraInChannels :: int
  m_extraOutChannels :: int
  m_needsDisabledSidechain :: bool
  m_bypassBufferF :: "real list list"
  m_bypassBufferD :: "real list list"
  m_chainIdx :: int
  isSuspended :: bool
  getTailLengthSeconds :: real

text \<open>
  Modelled from the spec: the declaration of the class \<open>ProcessorChain\<close>, which is
  in the same header. The chain owns its wrappers, so the vector of processors is a
  list of wrapper values. Besides the members of \<open>ProcessorChain\<close> the record holds
  what the chain inherits from the audio processor base class: the latency it
  reports, its bus layout and whether it runs in double precision. The latency of
  the chain is a 32-bit signed \<open>int\<close> of the program; it is an \<open>int\<close> here that
  \<open>updateNoLock\<close> keeps within the 32 bits.
\<close>

record ProcessorChain =
  m_processors :: "AGProcessor list"
  m_extraChannels :: int
  m_hasSidechain :: bool
  m_sidechainDisabled :: bool
  m_supportsDoublePrecission :: bool
  m_tailSecs :: real
  chainLatencySamples :: int
  chainBusesLayout :: BusesLayout
  isUsingDoublePrecision :: bool

section \<open>Bus negotiation and loading\<close>

text \<open>
  \<open>ProcessorChain::setProcessorBusesLayout\<close>, branch by branch. The result is the
  returned flag, the chain with its \<open>m_sidechainDisabled\<close> and \<open>m_extraChannels\<close> as
  the call leaves them, and the wrapper with its plugin, its extra channels and its
  \<open>needsDisabledSidechain\<close> flag as the call leaves them.
\<close>

definition extraBusChannels :: "AudioChannelSet list \<Rightarrow> int" where
  "extraBusChannels buses = sum_list (map channelSetSize (drop 1 buses))"

definition setProcessorBusesLayout ::
  "ProcessorChain \<Rightarrow> AGProcessor \<Rightarrow> bool \<times> ProcessorChain \<times> AGProcessor" where
  "setProcessorBusesLayout chain proc =
     (case m_plugin proc of
        None \<Rightarrow> (False, chain, proc)
      | Some plugin \<Rightarrow>
         (let layout0 = chainBusesLayout chain;
              layout1 = (if m_hasSidechain chain \<and> m_sidechainDisabled chain
                         then layout0\<lparr>inputBuses := arrayRemove (inputBuses layout0) 1\<rparr>
                         else layout0);
              hasSidechain = (m_hasSidechain chain \<and> \<not> m_sidechainDisabled chain);
              (supported1, plugin1) = checkAndSetBusesLayout plugin layout1
          in if supported1 then (True, chain, proc\<lparr>m_plugin := Some plugin1\<rparr>)
             else
              (let (supported2, plugin2, layout2) =
                     (if hasSidechain \<and> channelSetSize (getChannelSet layout1 True 1) > 1
                      then (let l = layout1\<lparr>inputBuses := arrayRemove (inputBuses layout1) 1 @ [Mono]\<rparr>;
                                (s, p) = checkAndSetBusesLayout plugin1 l
                            in (s, p, l))
                      else (False, plugin1, layout1));
                   (supported3, plugin3, layout3, chain3, proc3) =
                     (if hasSidechain \<and> \<not> supported2
                      then (let l = layout2\<lparr>inputBuses := arrayRemove (inputBuses layout2) 1\<rparr>;
                                (s, p) = checkAndSetBusesLayout plugin2 l
                            in if s
                               then (s, p, l, chain\<lparr>m_sidechainDisabled := True\<rparr>,
                                     proc\<lparr>m_needsDisabledSidechain := True\<rparr>)
                               else (s, p, l, chain, proc))
                      else (supported2, plugin2, layout2, chain, proc))
               in if supported3 then (True, chain3, proc3\<lparr>m_plugin := Some plugin3\<rparr>)
                  else
                   (let chain4 = (if hasSidechain then chain3\<lparr>m_sidechainDisabled := True\<rparr>
                                  else chain3);
                        procLayout = pluginBusesLayout plugin3;
                        extraInChannels =
                          getMainInputChannels procLayout - getMainInputChannels layout3
                            + extraBusChannels (inputBuses procLayout);
                        extraOutChannels =
                          getMainOutputChannels procLayout - getMainOutputChannels layout3
                            + extraBusChannels (outputBuses procLayout);
                        proc4 = proc3\<lparr>m_plugin := Some plugin3,
                                      m_needsDisabledSidechain := True,
                                      m_extraInChannels := extraInChannels,
                                      m_extraOutChannels := extraOutChannels\<rparr>;
                        chain5 = chain4\<lparr>m_extraChannels :=
                                   jmax3 (m_extraChannels chain4) extraInChannels extraOutChannels\<rparr>
                    in (True, chain5, proc4)))))"

text \<open>
  \<open>ProcessorChain::initPluginInstance\<close>. The calls that prepare the instance, set
  its play head, enable its buses and warm it up act inside the foreign plugin and
  leave no trace in the state modelled here; the chosen precision is recorded.
\<close>

definition initPluginInstance ::
  "ProcessorChain \<Rightarrow> AGProcessor \<Rightarrow> string \<Rightarrow> bool \<times> ProcessorChain \<times> AGProcessor \<times> string" where
  "initPluginInstance chain proc err =
     (let (ok, chain1, proc1) = setProcessorBusesLayout chain proc
      in if \<not> ok then (False, chain1, proc1, ''failed to find working I/O configuration'')
         else
          (let setPrec = (\<lambda>inst.
                 inst\<lparr>processingPrecision :=
                   (if isUsingDoublePrecision chain1 \<and> m_supportsDoublePrecission chain1
                       \<and> supportsDoublePrecisionProcessing inst
                    then doublePrecision else singlePrecision)\<rparr>)
           in (True, chain1, proc1\<lparr>m_plugin := map_option setPrec (m_plugin proc1)\<rparr>, err)))"

text \<open>
  The application supplies the catalog and the plugin format manager, whose
  \<open>createPluginInstance\<close> answers an instance or an error text.
\<close>

record App =
  pluginList :: "PluginDescription list"
  createPluginInstance :: "PluginDescription \<Rightarrow> string + AudioPluginInstance"

definition loadPlugin :: "App \<Rightarrow> string \<Rightarrow> string \<Rightarrow> AudioPluginInstance option \<times> string" where
  "loadPlugin app ident err =
     (case findPluginDescritpion (pluginList app) ident of
        Some plugdesc \<Rightarrow>
          (case createPluginInstance app plugdesc of
             Inr inst \<Rightarrow> (Some inst, err)
           | Inl err2 \<Rightarrow>
               (None, ''failed loading plugin '' @ fileOrIdentifier plugdesc @ '': '' @ err2))
      | None \<Rightarrow> (None, ''failed to find plugin descriptor''))"

text \<open>
  \<open>AGProcessor::load\<close>. The process-wide counter \<open>loadedCount\<close> is an unsigned
  32-bit value. The wrapper is passed beside the chain it refers to, as in
  \<open>addPluginProcessor\<close>, which loads the wrapper before it joins the chain. The
  result is the returned flag, the error text, the wrapper, the chain and the counter.
  The mutexes, and the registration of the wrapper as a listener of the plugin's
  parameters, leave no trace in this state. \<open>unload\<close> is the part of
  \<open>AGProcessor::unload\<close> that acts on the wrapper and the counter.
\<close>

definition load ::
  "App \<Rightarrow> ProcessorChain \<Rightarrow> 32 word \<Rightarrow> AGProcessor \<Rightarrow> string
     \<Rightarrow> bool \<times> string \<times> AGProcessor \<times> ProcessorChain \<times> 32 word" where
  "load app chain loadedCount proc err =
     (case m_plugin proc of
        Some p \<Rightarrow> (False, err, proc, chain, loadedCount)
      | None \<Rightarrow>
         (case loadPlugin app (m_id proc) err of
            (None, err1) \<Rightarrow> (False, err1, proc, chain, loadedCount)
          | (Some p, err1) \<Rightarrow>
             (let (ok, chain1, proc1, err2) =
                    initPluginInstance chain (proc\<lparr>m_plugin := Some p\<rparr>) err1
              in if ok then (True, err2, proc1, chain1, loadedCount + 1)
                 else (False, err2, proc1\<lparr>m_plugin := None\<rparr>, chain1, loadedCount))))"

definition unload :: "32 word \<Rightarrow> AGProcessor \<Rightarrow> AGProcessor \<times> 32 word" where
  "unload loadedCount proc =
     (case m_plugin proc of
        Some p \<Rightarrow> (proc\<lparr>m_plugin := None\<rparr>, loadedCount - 1)
      | None \<Rightarrow> (proc, loadedCount))"

section \<open>Operations of the chain\<close>

text \<open>
  \<open>ProcessorChain::updateChannels\<close>. \<open>updateChannels_layout\<close> is the layout the
  three \<open>if\<close> chains build. Whether the base class accepts a layout for the chain is
  decided outside the sources at hand, so the test is the parameter \<open>accepts\<close>; a
  refused layout leaves the chain's layout as it was.
\<close>

definition updateChannels_layout :: "int \<Rightarrow> int \<Rightarrow> int \<Rightarrow> BusesLayout" where
  "updateChannels_layout channelsIn channelsOut channelsSC =
     \<lparr>inputBuses =
        (if channelsIn = 1 then [Mono]
         else if channelsIn = 2 then [Stereo]
         else if channelsIn > 0 then [DiscreteChannels channelsIn]
         else [])
        @ (if channelsSC = 1 then [Mono]
           else if channelsSC = 2 then [Stereo]
           else if channelsSC > 0 then [DiscreteChannels channelsIn]
           else []),
      outputBuses =
        (if channelsOut = 1 then [Mono]
         else if channelsOut = 2 then [Stereo]
         else if channelsOut > 0 then [DiscreteChannels channelsOut]
         else [])\<rparr>"

fun updateChannels_loop ::
  "ProcessorChain \<Rightarrow> AGProcessor list \<Rightarrow> ProcessorChain \<times> AGProcessor list" where
  "updateChannels_loop chain [] = (chain, [])"
| "updateChannels_loop chain (proc # procs) =
     (let (ok, chain1, proc1) = setProcessorBusesLayout chain proc;
          (chain2, procs2) = updateChannels_loop chain1 procs
      in (chain2, proc1 # procs2))"

definition updateChannels ::
  "(BusesLayout \<Rightarrow> bool) \<Rightarrow> ProcessorChain \<Rightarrow> int \<Rightarrow> int \<Rightarrow> int \<Rightarrow> bool \<times> ProcessorChain" where
  "updateChannels accepts chain channelsIn channelsOut channelsSC =
     (let layout = updateChannels_layout channelsIn channelsOut channelsSC;
          chain1 = (if accepts layout then chain\<lparr>chainBusesLayout := layout\<rparr> else chain);
          chain2 = chain1\<lparr>m_extraChannels := 0,
                          m_hasSidechain := (channelsSC > 0),
                          m_sidechainDisabled := False\<rparr>;
          (chain3, procs) = updateChannels_loop chain2 (m_processors chain2)
      in (True, chain3\<lparr>m_processors := procs\<rparr>))"

text \<open>
  \<open>ProcessorChain::updateNoLock\<close>. The first loop carries the four values it
  recomputes; the second walks the processors from the back past the suspended ones.
  The local \<open>latency\<close> is a 32-bit signed \<open>int\<close>, and \<open>latency += ...\<close> adds in
  that type: \<open>int32\<close> is the value of a 32-bit signed integer with the given bits,
  so that a sum beyond the range wraps around, as it does in the compiled program.
\<close>

definition int32 :: "int \<Rightarrow> int" where
  "int32 x = (x + 2147483648) mod 4294967296 - 2147483648"

fun updateNoLock_loop ::
  "bool \<Rightarrow> AGProcessor list \<Rightarrow> int \<times> bool \<times> int \<times> bool \<Rightarrow> int \<times> bool \<times> int \<times> bool" where
  "updateNoLock_loop hasSC [] acc = acc"
| "updateNoLock_loop hasSC (proc # procs) (latency, supportsDouble, extraChannels, scDisabled) =
     (case m_plugin proc of
        None \<Rightarrow> updateNoLock_loop hasSC procs (latency, supportsDouble, extraChannels, scDisabled)
      | Some p \<Rightarrow>
          updateNoLock_loop hasSC procs
            (int32 (latency + getLatencySamples p),
             (if \<not> supportsDoublePrecisionProcessing p then False else supportsDouble),
             jmax3 extraChannels (m_extraInChannels proc) (m_extraOutChannels proc),
             hasSC \<and> (scDisabled \<or> m_needsDisabledSidechain proc)))"

fun skipSuspended :: "AGProcessor list \<Rightarrow> AGProcessor list" where
  "skipSuspended [] = []"
| "skipSuspended (proc # procs) = (if isSuspended proc then skipSuspended procs else proc # procs)"

definition updateNoLock :: "ProcessorChain \<Rightarrow> ProcessorChain" where
  "updateNoLock chain =
     (let (latency, supportsDouble, extraChannels, scDisabled) =
            updateNoLock_loop (m_hasSidechain chain) (m_processors chain) (0, True, 0, False);
          it = skipSuspended (rev (m_processors chain))
      in chain\<lparr>m_extraChannels := extraChannels,
               m_sidechainDisabled := scDisabled,
               chainLatencySamples := latency,
               m_supportsDoublePrecission := supportsDouble,
               m_tailSecs := (case it of proc # rest \<Rightarrow> getTailLengthSeconds proc | [] \<Rightarrow> 0)\<rparr>)"

text \<open>
  \<open>addProcessor\<close>, \<open>delProcessor\<close> and \<open>exchangeProcessors\<close>. The loop of
  \<open>delProcessor\<close> counts the positions until it meets \<open>idx\<close> and erases there. What
  the erased wrapper's destructor does to the plugin lies outside the chain.
\<close>

definition addProcessor :: "ProcessorChain \<Rightarrow> AGProcessor \<Rightarrow> ProcessorChain" where
  "addProcessor chain processor =
     updateNoLock
       (chain\<lparr>m_processors :=
          m_processors chain @ [processor\<lparr>m_chainIdx := int (length (m_processors chain))\<rparr>]\<rparr>)"

fun delProcessor_loop :: "AGProcessor list \<Rightarrow> int \<Rightarrow> int \<Rightarrow> AGProcessor list" where
  "delProcessor_loop [] i idx = []"
| "delProcessor_loop (proc # procs) i idx =
     (if i = idx then procs else proc # delProcessor_loop procs (i + 1) idx)"

definition delProcessor :: "ProcessorChain \<Rightarrow> int \<Rightarrow> ProcessorChain" where
  "delProcessor chain idx =
     updateNoLock (chain\<lparr>m_processors := delProcessor_loop (m_processors chain) 0 idx\<rparr>)"

definition exchangeProcessors :: "ProcessorChain \<Rightarrow> int \<Rightarrow> int \<Rightarrow> ProcessorChain" where
  "exchangeProcessors chain idxA idxB =
     (let procs = m_processors chain
      in if idxA > -1 \<and> nat idxA < length procs \<and> idxB > -1 \<and> nat idxB < length procs
         then (let a = nat idxA; b = nat idxB;
                   procs1 = procs[a := procs ! b, b := procs ! a];
                   procs2 = procs1[a := (procs1 ! a)\<lparr>m_chainIdx := idxA\<rparr>];
                   procs3 = procs2[b := (procs2 ! b)\<lparr>m_chainIdx := idxB\<rparr>]
               in chain\<lparr>m_processors := procs3\<rparr>)
         else chain)"


section \<open>Bypass with latency compensation\<close>

text \<open>
  An audio buffer is the list of its channels, each the list of its samples. The
  chain's total channel counts are the sums over the buses of its layout.
\<close>

definition getTotalNumInputChannels :: "ProcessorChain \<Rightarrow> int" where
  "getTotalNumInputChannels chain =
     sum_list (map channelSetSize (inputBuses (chainBusesLayout chain)))"

definition getTotalNumOutputChannelsOfChain :: "ProcessorChain \<Rightarrow> int" where
  "getTotalNumOutputChannelsOfChain chain =
     sum_list (map channelSetSize (outputBuses (chainBusesLayout chain)))"

definition clearChannel :: "nat \<Rightarrow> real list list \<Rightarrow> real list list" where
  "clearChannel i buffer = buffer[i := replicate (length (buffer ! i)) 0]"

text \<open>
  The inner loop of \<open>processBlockBypassed\<close> on one channel: the sample is added at
  the tail of the FIFO, the head of the FIFO is written to the buffer, and the head
  is removed. On an empty array \<open>getFirst\<close> would answer zero and \<open>remove\<close> would
  do nothing. The result is the FIFO and the samples of the channel after the loop.
\<close>

fun bypassSamples :: "real list \<Rightarrow> real list \<Rightarrow> real list \<times> real list" where
  "bypassSamples buf [] = (buf, [])"
| "bypassSamples buf (x # xs) =
     (case buf @ [x] of
        y # rest \<Rightarrow> (let (buf', ys) = bypassSamples rest xs in (buf', y # ys))
      | [] \<Rightarrow> (let (buf', ys) = bypassSamples [] xs in (buf', 0 # ys)))"

definition bypassChannel ::
  "nat \<Rightarrow> real list list \<times> real list list \<Rightarrow> real list list \<times> real list list" where
  "bypassChannel c st =
     (case st of (fifos, buffer) \<Rightarrow>
        (let (buf', ys) = bypassSamples (fifos ! c) (buffer ! c)
         in (fifos[c := buf'], buffer[c := ys])))"

definition processBlockBypassed_on ::
  "int \<Rightarrow> int \<Rightarrow> real list list \<Rightarrow> real list list \<Rightarrow> real list list \<times> real list list" where
  "processBlockBypassed_on totalIn totalOut fifos buffer =
     (let numChannels = int (length buffer);
          totalNumInputChannels = (if totalIn > numChannels then numChannels else totalIn);
          totalNumOutputChannels = (if totalOut > numChannels then numChannels else totalOut);
          buffer1 = fold clearChannel
                      [nat totalNumInputChannels ..< nat totalNumOutputChannels] buffer
      in if int (length fifos) < totalNumOutputChannels
         then (fifos, fold clearChannel [0 ..< nat totalNumOutputChannels] buffer1)
         else fold bypassChannel [0 ..< nat totalNumOutputChannels] (fifos, buffer1))"

text \<open>
  The two overloads of \<open>AGProcessor::processBlockBypassed\<close> run the same text on
  \<open>m_bypassBufferF\<close> and on \<open>m_bypassBufferD\<close>.
\<close>

definition processBlockBypassed ::
  "ProcessorChain \<Rightarrow> AGProcessor \<Rightarrow> real list list \<Rightarrow> AGProcessor \<times> real list list" where
  "processBlockBypassed chain proc buffer =
     (let (fifos, buffer') =
            processBlockBypassed_on (getTotalNumInputChannels chain)
              (getTotalNumOutputChannelsOfChain chain) (m_bypassBufferF proc) buffer
      in (proc\<lparr>m_bypassBufferF := fifos\<rparr>, buffer'))"

definition processBlockBypassedD ::
  "ProcessorChain \<Rightarrow> AGProcessor \<Rightarrow> real list list \<Rightarrow> AGProcessor \<times> real list list" where
  "processBlockBypassedD chain proc buffer =
     (let (fifos, buffer') =
            processBlockBypassed_on (getTotalNumInputChannels chain)
              (getTotalNumOutputChannelsOfChain chain) (m_bypassBufferD proc) buffer
      in (proc\<lparr>m_bypassBufferD := fifos\<rparr>, buffer'))"

section \<open>Resizing the bypass FIFOs\<close>

text \<open>
  \<open>AGProcessor::updateLatencyBuffers\<close>. The loop that shortens a FIFO removes the
  head while the size exceeds \<open>m_lastKnownLatency\<close>; on an empty array the removal
  does nothing, so with a negative latency the loop does not end. It is therefore a
  partial function, and \<open>None\<close> stands for a call that never returns. The loops
  that add always end. \<open>resizeFifo\<close> is the pair of loops on one FIFO,
  \<open>resizeChannel\<close> the body of the loop over the channels, first on the
  \<open>float\<close> FIFO and then on the \<open>double\<close> one. Calling the method on a wrapper without a plugin dereferences
  a null pointer, which is the fault \<open>NullPointerDereference\<close>.
\<close>

datatype fault = NullPointerDereference

function addFifos :: "int \<Rightarrow> int \<Rightarrow> real list list \<Rightarrow> real list list" where
  "addFifos channels latency bufs =
     (if int (length bufs) < channels
      then addFifos channels latency (bufs @ [replicate (nat latency) 0])
      else bufs)"
  by pat_completeness auto
termination
  by (relation "measure (\<lambda>(channels, latency, bufs). nat (channels - int (length bufs)))") auto

partial_function (option) shrinkFifo :: "int \<Rightarrow> real list \<Rightarrow> real list option" where
  "shrinkFifo latency buf =
     (if int (length buf) > latency then shrinkFifo latency (arrayRemove buf 0) else Some buf)"

function growFifo :: "int \<Rightarrow> real list \<Rightarrow> real list" where
  "growFifo latency buf =
     (if int (length buf) < latency then growFifo latency (buf @ [0]) else buf)"
  by pat_completeness auto
termination
  by (relation "measure (\<lambda>(latency, buf). nat (latency - int (length buf)))") auto

definition resizeFifo :: "int \<Rightarrow> real list \<Rightarrow> real list option" where
  "resizeFifo latency buf =
     (case shrinkFifo latency buf of
        None \<Rightarrow> None
      | Some buf' \<Rightarrow> Some (growFifo latency buf'))"

definition resizeChannel ::
  "int \<Rightarrow> nat \<Rightarrow> real list list \<times> real list list
     \<Rightarrow> (real list list \<times> real list list) option" where
  "resizeChannel latency c st =
     (case st of (bufsF, bufsD) \<Rightarrow>
        (case resizeFifo latency (bufsF ! c) of
           None \<Rightarrow> None
         | Some bufF \<Rightarrow>
            (case resizeFifo latency (bufsD ! c) of
               None \<Rightarrow> None
             | Some bufD \<Rightarrow> Some (bufsF[c := bufF], bufsD[c := bufD]))))"

fun resizeFifos ::
  "int \<Rightarrow> nat list \<Rightarrow> real list list \<times> real list list
     \<Rightarrow> (real list list \<times> real list list) option" where
  "resizeFifos latency [] st = Some st"
| "resizeFifos latency (c # cs) st =
     (case resizeChannel latency c st of
        None \<Rightarrow> None
      | Some st' \<Rightarrow> resizeFifos latency cs st')"

definition updateLatencyBuffers :: "AGProcessor \<Rightarrow> (fault + AGProcessor) option" where
  "updateLatencyBuffers proc =
     (case m_plugin proc of
        None \<Rightarrow> Some (Inl NullPointerDereference)
      | Some p \<Rightarrow>
         (let channels = getTotalNumOutputChannels p;
              latency = m_lastKnownLatency proc;
              bufsF = addFifos channels latency (m_bypassBufferF proc);
              bufsD = addFifos channels latency (m_bypassBufferD proc)
          in case resizeFifos latency [0 ..< nat channels] (bufsF, bufsD) of
               None \<Rightarrow> None
             | Some (bufsF', bufsD') \<Rightarrow>
                 Some (Inr (proc\<lparr>m_bypassBufferF := bufsF', m_bypassBufferD := bufsD'\<rparr>))))"

section \<open>The recents registry\<close>

text \<open>
  \<open>m_recents\<close> maps a host to its list of plugin descriptions, most recent first.
  The constant \<open>Defaults::DEFAULT_NUM_RECENTS\<close>, the rendering
  \<open>AGProcessor::createString\<close> and the equality operator of plugin descriptions,
  which \<open>removeAllInstancesOf\<close> applies with the description to remove on its left,
  are declared outside the sources at hand; they are the parameters \<open>numRecents\<close>,
  \<open>createString\<close> and \<open>sameDescription\<close>.
\<close>

type_synonym recents = "string \<rightharpoonup> PluginDescription list"

fun getRecentsList_loop ::
  "(PluginDescription \<Rightarrow> string) \<Rightarrow> PluginDescription list \<Rightarrow> string \<Rightarrow> string" where
  "getRecentsList_loop createString [] list = list"
| "getRecentsList_loop createString (r # rs) list =
     getRecentsList_loop createString rs (list @ createString r @ [CHR 0x0A])"

definition getRecentsList ::
  "(PluginDescription \<Rightarrow> string) \<Rightarrow> recents \<Rightarrow> string \<Rightarrow> string" where
  "getRecentsList createString m_recents host =
     (case m_recents host of
        None \<Rightarrow> []
      | Some rs \<Rightarrow> getRecentsList_loop createString rs [])"

definition removeAllInstancesOf ::
  "('a \<Rightarrow> 'a \<Rightarrow> bool) \<Rightarrow> 'a \<Rightarrow> 'a list \<Rightarrow> 'a list" where
  "removeAllInstancesOf same valueToRemove xs = filter (\<lambda>x. \<not> same valueToRemove x) xs"

definition addToRecentsList ::
  "(PluginDescription \<Rightarrow> PluginDescription \<Rightarrow> bool) \<Rightarrow> int \<Rightarrow> PluginDescription list
     \<Rightarrow> recents \<Rightarrow> string \<Rightarrow> string \<Rightarrow> recents" where
  "addToRecentsList sameDescription numRecents pluglist m_recents ident host =
     (case findPluginDescritpion pluglist ident of
        None \<Rightarrow> m_recents
      | Some plug \<Rightarrow>
         (let rs = (case m_recents host of None \<Rightarrow> [] | Some l \<Rightarrow> l);
              rs1 = removeAllInstancesOf sameDescription plug rs;
              rs2 = plug # rs1;
              toRemove = int (length rs2) - numRecents;
              rs3 = (if toRemove > 0 then arrayRemoveLast rs2 toRemove else rs2)
          in m_recents(host \<mapsto> rs3)))"

section \<open>Notions used to state the properties\<close>

text \<open>
  The legacy and the canonical form of a plugin identifier, assembled from their
  segments, and the two readings of a hexadecimal digit.
\<close>

definition legacyID :: "string \<Rightarrow> string \<Rightarrow> string \<Rightarrow> string \<Rightarrow> string" where
  "legacyID fmt nm fileHash pluginId = fmt @ ''-'' @ nm @ ''-'' @ fileHash @ ''-'' @ pluginId"

definition canonicalID :: "string \<Rightarrow> string \<Rightarrow> string \<Rightarrow> string" where
  "canonicalID fmt nm pluginId = fmt @ ''-'' @ nm @ ''-'' @ pluginId"

definition hexDigitLowerCase :: "char \<Rightarrow> bool" where
  "hexDigitLowerCase c \<longleftrightarrow> c \<in> set ''0123456789abcdef''"

definition hexDigitAnyCase :: "char \<Rightarrow> bool" where
  "hexDigitAnyCase c \<longleftrightarrow> c \<in> set ''0123456789abcdefABCDEF''"

definition legacyParts :: "string \<Rightarrow> string \<Rightarrow> string \<Rightarrow> string \<Rightarrow> string \<Rightarrow> bool" where
  "legacyParts ident fmt nm fileHash pluginId \<longleftrightarrow>
     ident = legacyID fmt nm fileHash pluginId
     \<and> fmt \<in> {''AudioUnit'', ''VST'', ''VST3''}
     \<and> list_all hexDigitAnyCase fileHash
     \<and> CHR ''-'' \<notin> set pluginId"

text \<open>
  The wrappers of a chain that hold a plugin, those that are not suspended, the
  agreement of the \<open>chainIndex\<close> fields with the positions, and an index in range.
\<close>

definition loadedProcessors :: "AGProcessor list \<Rightarrow> AGProcessor list" where
  "loadedProcessors procs = filter (\<lambda>proc. m_plugin proc \<noteq> None) procs"

definition activeProcessors :: "AGProcessor list \<Rightarrow> AGProcessor list" where
  "activeProcessors procs = filter (\<lambda>proc. \<not> isSuspended proc) procs"

definition chainIndicesMatch :: "AGProcessor list \<Rightarrow> bool" where
  "chainIndicesMatch procs \<longleftrightarrow> map m_chainIdx procs = map int [0 ..< length procs]"

definition inRange :: "AGProcessor list \<Rightarrow> int \<Rightarrow> bool" where
  "inRange procs idx \<longleftrightarrow> idx > -1 \<and> nat idx < length procs"

section \<open>Example states\<close>

text \<open>
  A stereo session: a plugin that accepts the stereo layout, a plugin that only
  knows its own mono layout, a wrapper before and after loading, an empty chain,
  and the applications whose format manager creates these plugins.
\<close>

definition stereoLayout :: BusesLayout where
  "stereoLayout = \<lparr>inputBuses = [Stereo], outputBuses = [Stereo]\<rparr>"

definition monoLayout :: BusesLayout where
  "monoLayout = \<lparr>inputBuses = [Mono], outputBuses = [Mono]\<rparr>"

definition examplePlugin :: AudioPluginInstance where
  "examplePlugin =
     \<lparr>getLatencySamples = 64, supportsDoublePrecisionProcessing = True,
      getTotalNumOutputChannels = 2, pluginBusesLayout = stereoLayout,
      supportedLayouts = [stereoLayout], processingPrecision = singlePrecision\<rparr>"

definition monoPlugin :: AudioPluginInstance where
  "monoPlugin =
     \<lparr>getLatencySamples = 128, supportsDoublePrecisionProcessing = False,
      getTotalNumOutputChannels = 1, pluginBusesLayout = monoLayout,
      supportedLayouts = [monoLayout], processingPrecision = singlePrecision\<rparr>"

definition exampleProcessor :: AGProcessor where
  "exampleProcessor =
     \<lparr>m_id = ''VST-Foo-2a'', m_plugin = None, m_prepared = False, m_lastKnownLatency = 0,
      m_extraInChannels = 0, m_extraOutChannels = 0, m_needsDisabledSidechain = False,
      m_bypassBufferF = [], m_bypassBufferD = [], m_chainIdx = 0,
      isSuspended = False, getTailLengthSeconds = 0\<rparr>"

definition loadedProcessor :: AGProcessor where
  "loadedProcessor = exampleProcessor\<lparr>m_plugin := Some examplePlugin\<rparr>"

definition emptyChain :: ProcessorChain where
  "emptyChain =
     \<lparr>m_processors = [], m_extraChannels = 0, m_hasSidechain = False,
      m_sidechainDisabled = False, m_supportsDoublePrecission = True, m_tailSecs = 0,
      chainLatencySamples = 0, chainBusesLayout = stereoLayout,
      isUsingDoublePrecision = False\<rparr>"

definition exampleDescription :: PluginDescription where
  "exampleDescription =
     \<lparr>pluginFormatName = ''VST'', name = ''Foo'', deprecatedUid = 42,
      fileOrIdentifier = ''/plugins/Foo.vst''\<rparr>"

definition exampleApp :: App where
  "exampleApp =
     \<lparr>pluginList = [exampleDescription], createPluginInstance = (\<lambda>d. Inr examplePlugin)\<rparr>"

definition monoApp :: App where
  "monoApp =
     \<lparr>pluginList = [exampleDescription], createPluginInstance = (\<lambda>d. Inr monoPlugin)\<rparr>"

definition monoProcessor :: AGProcessor where
  "monoProcessor =
     exampleProcessor\<lparr>m_plugin := Some monoPlugin, m_needsDisabledSidechain := True,
                      m_extraInChannels := -1, m_extraOutChannels := -1\<rparr>"

definition twoPluginChain :: ProcessorChain where
  "twoPluginChain =
     emptyChain\<lparr>m_processors :=
       [loadedProcessor, exampleProcessor\<lparr>m_plugin := Some monoPlugin, m_chainIdx := 1\<rparr>]\<rparr>"

text \<open>
  A chain of two loaded wrappers whose plugins report the latencies 2147483647 and 1.
\<close>

definition overflowChain :: ProcessorChain where
  "overflowChain =
     emptyChain\<lparr>m_processors :=
       [exampleProcessor\<lparr>m_plugin := Some (examplePlugin\<lparr>getLatencySamples := 2147483647\<rparr>)\<rparr>,
        exampleProcessor\<lparr>m_plugin := Some (examplePlugin\<lparr>getLatencySamples := 1\<rparr>),
                         m_chainIdx := 1\<rparr>]\<rparr>"

definition staleChain :: ProcessorChain where
  "staleChain =
     delProcessor
       (addProcessor (addProcessor (addProcessor emptyChain loadedProcessor) loadedProcessor)
          loadedProcessor) 0"

text \<open>
  A chain with one input and two output channels, a wrapper of latency 4 with one
  zero-filled FIFO of four samples per output channel, and an impulse of eight samples.
\<close>

definition monoToStereoChain :: ProcessorChain where
  "monoToStereoChain =
     emptyChain\<lparr>chainBusesLayout := \<lparr>inputBuses = [Mono], outputBuses = [Stereo]\<rparr>\<rparr>"

definition bypassProcessor :: AGProcessor where
  "bypassProcessor =
     loadedProcessor\<lparr>m_lastKnownLatency := 4,
                     m_bypassBufferF := [[0, 0, 0, 0], [0, 0, 0, 0]],
                     m_bypassBufferD := [[0, 0, 0, 0], [0, 0, 0, 0]]\<rparr>"

definition impulse :: "real list" where
  "impulse = [1, 0, 0, 0, 0, 0, 0, 0]"

text \<open>
  A second plugin description, and a registry in which the host \<open>daw\<close> has used the
  second plugin and then the first.
\<close>

definition otherDescription :: PluginDescription where
  "otherDescription =
     \<lparr>pluginFormatName = ''VST3'', name = ''Bar'', deprecatedUid = 255,
      fileOrIdentifier = ''/plugins/Bar.vst3''\<rparr>"

definition exampleRecents :: recents where
  "exampleRecents = [''daw'' \<mapsto> [otherDescription, exampleDescription]]"

text \<open>
  A loaded wrapper of latency 2 whose plugin has two output channels; its single
  \<open>float\<close> FIFO is too long and its single \<open>double\<close> FIFO too short.
\<close>

definition resizeProcessor :: AGProcessor where
  "resizeProcessor =
     loadedProcessor\<lparr>m_lastKnownLatency := 2,
                     m_bypassBufferF := [[1, 2, 3]],
                     m_bypassBufferD := [[7]]\<rparr>"

text \<open>
  A FIFO brought to a length: shortened from the head when it is longer, padded with
  zeros at the tail when it is shorter.
\<close>

definition resized :: "nat \<Rightarrow> real list \<Rightarrow> real list" where
  "resized n buf = drop (length buf - n) buf @ replicate (n - length buf) 0"

text \<open>
  The FIFO of channel \<open>c\<close> in the collection \<open>new\<close> has exactly \<open>n\<close> samples and
  comes from the collection \<open>old\<close>: truncated from the head when the old FIFO was
  longer, zero-padded at the tail when it was shorter, and all zeros when the old
  collection had no FIFO for the channel.
\<close>

definition resizedAt :: "nat \<Rightarrow> real list list \<Rightarrow> real list list \<Rightarrow> nat \<Rightarrow> bool" where
  "resizedAt n old new c \<longleftrightarrow>
     length (new ! c) = n
     \<and> (c < length old \<and> n \<le> length (old ! c) \<longrightarrow>
          new ! c = drop (length (old ! c) - n) (old ! c))
     \<and> (c < length old \<and> length (old ! c) \<le> n \<longrightarrow>
          new ! c = old ! c @ replicate (n - length (old ! c)) 0)
     \<and> (length old \<le> c \<longrightarrow> new ! c = replicate n 0)"

section \<open>Legacy identifiers\<close>

lemma of_char_mem_set:
  fixes c :: char
  assumes "(of_char c :: nat) \<in> of_char ` set cs"
  shows "c \<in> set cs"
proof -
  from assms obtain d where d: "d \<in> set cs" "(of_char c :: nat) = of_char d" by blast
  then have "c = d" by (simp only: of_char_eq_iff)
  with d show ?thesis by simp
qed

lemma notHexChar_toLowerChar: "\<not> notHexChar (toLowerChar c) \<longleftrightarrow> hexDigitAnyCase c"
proof
  assume h: "hexDigitAnyCase c"
  then show "\<not> notHexChar (toLowerChar c)"
    unfolding hexDigitAnyCase_def
    by (auto simp: notHexChar_def toLowerChar_def)
next
  assume h: "\<not> notHexChar (toLowerChar c)"
  let ?n = "of_char c :: nat"
  have lt: "?n < 256" by simp
  from h have "(48 \<le> ?n \<and> ?n \<le> 57) \<or> (65 \<le> ?n \<and> ?n \<le> 70) \<or> (97 \<le> ?n \<and> ?n \<le> 102)"
    using lt by (auto simp: notHexChar_def toLowerChar_def split: if_splits)
  then have "?n \<in> {48,49,50,51,52,53,54,55,56,57,65,66,67,68,69,70,97,98,99,100,101,102}"
    by (simp; arith)
  then have "?n \<in> of_char ` set ''0123456789abcdefABCDEF''"
    by auto
  then show "hexDigitAnyCase c"
    unfolding hexDigitAnyCase_def by (rule of_char_mem_set)
qed

lemma notHexChar_toLowerChar_iff: "notHexChar (toLowerChar c) \<longleftrightarrow> \<not> hexDigitAnyCase c"
  using notHexChar_toLowerChar [of c] by blast

lemma onlyHexChars_toLowerCase: "onlyHexChars (toLowerCase s) \<longleftrightarrow> list_all hexDigitAnyCase s"
  by (induction s) (simp_all add: toLowerCase_def notHexChar_toLowerChar_iff)

lemma hexDigitAnyCase_not_dash: "hexDigitAnyCase c \<Longrightarrow> c \<noteq> CHR ''-''"
  by (auto simp: hexDigitAnyCase_def)

lemma hex_no_dash: "list_all hexDigitAnyCase s \<Longrightarrow> CHR ''-'' \<notin> set s"
  by (induction s) (auto dest: hexDigitAnyCase_not_dash)

lemma indexOfChar_absent: "c \<notin> set s \<Longrightarrow> indexOfChar s c = -1"
  by (induction s) (auto simp: Let_def)

lemma indexOfChar_first: "c \<notin> set a \<Longrightarrow> indexOfChar (a @ c # b) c = int (length a)"
  by (induction a) (auto simp: Let_def)

lemma indexOfChar_present: "indexOfChar s c > -1 \<Longrightarrow> c \<in> set s"
  using indexOfChar_absent [of c s] by force

lemma lastIndexOfChar_loop_absent: "c \<notin> set s \<Longrightarrow> lastIndexOfChar_loop s c i lst = lst"
  by (induction s arbitrary: i lst) auto

lemma lastIndexOfChar_loop_last:
  "c \<notin> set b \<Longrightarrow> lastIndexOfChar_loop (a @ c # b) c i lst = i + int (length a)"
  by (induction a arbitrary: i lst) (auto simp: lastIndexOfChar_loop_absent)

lemma lastIndexOfChar_last: "c \<notin> set b \<Longrightarrow> lastIndexOfChar (a @ c # b) c = int (length a)"
  by (simp add: lastIndexOfChar_def lastIndexOfChar_loop_last)

lemma lastIndexOfChar_absent: "c \<notin> set s \<Longrightarrow> lastIndexOfChar s c = -1"
  by (simp add: lastIndexOfChar_def lastIndexOfChar_loop_absent)

lemma lastIndexOfChar_present: "lastIndexOfChar s c > -1 \<Longrightarrow> c \<in> set s"
  using lastIndexOfChar_absent [of c s] by force

lemma substring_prefix: "substring (a @ b) 0 (int (length a)) = a"
  by (simp add: substring_def)

lemma substringFrom_suffix: "substringFrom (a @ c # b) (int (length a) + 1) = b"
  by (simp add: substringFrom_def nat_add_distrib)

lemma formats_no_dash: "fmt \<in> {''AudioUnit'', ''VST'', ''VST3''} \<Longrightarrow> CHR ''-'' \<notin> set fmt"
  by auto

text \<open>The conversion of an identifier that has the four segments.\<close>

lemma convert_legacy:
  assumes "legacyParts ident fmt nm fileHash pluginId"
  shows "convertJUCEtoAGPluginID ident = canonicalID fmt nm pluginId"
proof -
  from assms have id: "ident = fmt @ CHR ''-'' # (nm @ CHR ''-'' # fileHash) @ CHR ''-'' # pluginId"
    and f: "fmt \<in> {''AudioUnit'', ''VST'', ''VST3''}"
    and h: "list_all hexDigitAnyCase fileHash" and p: "CHR ''-'' \<notin> set pluginId"
    by (simp_all add: legacyParts_def legacyID_def)
  have pos: "indexOfChar ident (CHR ''-'') = int (length fmt)"
    unfolding id using formats_no_dash [OF f] by (rule indexOfChar_first)
  have fm: "substring ident 0 (int (length fmt)) = fmt"
    unfolding id by (rule substring_prefix)
  have rest: "substringFrom ident (int (length fmt) + 1) = (nm @ CHR ''-'' # fileHash) @ CHR ''-'' # pluginId"
    unfolding id by (rule substringFrom_suffix)
  have pos2: "lastIndexOfChar ((nm @ CHR ''-'' # fileHash) @ CHR ''-'' # pluginId) (CHR ''-'')
      = int (length (nm @ CHR ''-'' # fileHash))"
    using p by (rule lastIndexOfChar_last)
  have pid: "substringFrom ((nm @ CHR ''-'' # fileHash) @ CHR ''-'' # pluginId)
      (int (length (nm @ CHR ''-'' # fileHash)) + 1) = pluginId"
    by (rule substringFrom_suffix)
  have nm2: "substring ((nm @ CHR ''-'' # fileHash) @ CHR ''-'' # pluginId) 0
      (int (length (nm @ CHR ''-'' # fileHash))) = nm @ CHR ''-'' # fileHash"
    by (rule substring_prefix)
  have pos3: "lastIndexOfChar (nm @ CHR ''-'' # fileHash) (CHR ''-'') = int (length nm)"
    using hex_no_dash [OF h] by (rule lastIndexOfChar_last)
  have fh: "substringFrom (nm @ CHR ''-'' # fileHash) (int (length nm) + 1) = fileHash"
    by (rule substringFrom_suffix)
  have nm3: "substring (nm @ CHR ''-'' # fileHash) 0 (int (length nm)) = nm"
    by (rule substring_prefix)
  have hx: "onlyHexChars (toLowerCase fileHash)"
    using h by (simp add: onlyHexChars_toLowerCase)
  have fmt_ok: "\<not> (fmt \<noteq> ''AudioUnit'' \<and> fmt \<noteq> ''VST'' \<and> fmt \<noteq> ''VST3'')"
    using f by blast
  show ?thesis
    unfolding convertJUCEtoAGPluginID_def Let_def pos fm rest pos2 pid nm2 pos3 fh nm3
    using hx fmt_ok by (simp add: canonicalID_def)
qed

lemma indexOfChar_split:
  assumes "indexOfChar s c > -1"
  shows "\<exists>a b. s = a @ c # b \<and> c \<notin> set a \<and> indexOfChar s c = int (length a)"
proof -
  from assms have "c \<in> set s" by (rule indexOfChar_present)
  then obtain a b where ab: "s = a @ c # b" "c \<notin> set a" by (meson split_list_first)
  then show ?thesis using indexOfChar_first by blast
qed

lemma lastIndexOfChar_split:
  assumes "lastIndexOfChar s c > -1"
  shows "\<exists>a b. s = a @ c # b \<and> c \<notin> set b \<and> lastIndexOfChar s c = int (length a)"
proof -
  from assms have "c \<in> set s" by (rule lastIndexOfChar_present)
  then obtain a b where ab: "s = a @ c # b" "c \<notin> set b" by (meson split_list_last)
  then show ?thesis using lastIndexOfChar_last by blast
qed

text \<open>An identifier that is converted to a non-empty text has the four segments.\<close>

lemma convert_nonempty:
  assumes "convertJUCEtoAGPluginID ident \<noteq> []"
  shows "\<exists>fmt nm fileHash pluginId. legacyParts ident fmt nm fileHash pluginId"
proof -
  let ?d = "CHR ''-''"
  have p1: "indexOfChar ident ?d > -1"
    using assms by (auto simp: convertJUCEtoAGPluginID_def Let_def split: if_splits)
  then obtain fmt r1 where s1: "ident = fmt @ ?d # r1" "indexOfChar ident ?d = int (length fmt)"
    using indexOfChar_split by blast
  have fm: "substring ident 0 (int (length fmt)) = fmt"
    unfolding s1(1) by (rule substring_prefix)
  have rest: "substringFrom ident (int (length fmt) + 1) = r1"
    unfolding s1(1) by (rule substringFrom_suffix)
  note a1 = assms [unfolded convertJUCEtoAGPluginID_def Let_def s1(2) fm rest]
  have f: "fmt \<in> {''AudioUnit'', ''VST'', ''VST3''}"
    using a1 by (auto split: if_splits)
  have p2: "lastIndexOfChar r1 ?d > -1"
    using a1 by (auto split: if_splits)
  then obtain r2 pluginId where s2: "r1 = r2 @ ?d # pluginId" "?d \<notin> set pluginId"
      "lastIndexOfChar r1 ?d = int (length r2)"
    using lastIndexOfChar_split by blast
  have pid: "substringFrom r1 (int (length r2) + 1) = pluginId"
    unfolding s2(1) by (rule substringFrom_suffix)
  have nm2: "substring r1 0 (int (length r2)) = r2"
    unfolding s2(1) by (rule substring_prefix)
  note a2 = a1 [unfolded s2(3) pid nm2]
  have p3: "lastIndexOfChar r2 ?d > -1"
    using a2 by (auto split: if_splits)
  then obtain nm fileHash where s3: "r2 = nm @ ?d # fileHash"
      "lastIndexOfChar r2 ?d = int (length nm)"
    using lastIndexOfChar_split by blast
  have fh: "substringFrom r2 (int (length nm) + 1) = fileHash"
    unfolding s3(1) by (rule substringFrom_suffix)
  note a3 = a2 [unfolded s3(2) fh]
  have hx: "onlyHexChars (toLowerCase fileHash)"
    using a3 by (auto split: if_splits)
  then have h: "list_all hexDigitAnyCase fileHash"
    by (simp add: onlyHexChars_toLowerCase)
  have "legacyParts ident fmt nm fileHash pluginId"
    unfolding legacyParts_def legacyID_def using s1(1) s2(1,2) s3(1) f h by simp
  then show ?thesis by blast
qed

text \<open>
  The segments of a legacy identifier are determined by the identifier, as long as
  the format, the file hash and the plugin id contain no dash.
\<close>

lemma legacyID_segments_unique:
  assumes eq: "legacyID fmt nm fileHash pluginId = legacyID fmt' nm' fileHash' pluginId'"
    and d: "CHR ''-'' \<notin> set fmt" "CHR ''-'' \<notin> set fileHash" "CHR ''-'' \<notin> set pluginId"
    and d': "CHR ''-'' \<notin> set fmt'" "CHR ''-'' \<notin> set fileHash'" "CHR ''-'' \<notin> set pluginId'"
  shows "fmt = fmt' \<and> nm = nm' \<and> fileHash = fileHash' \<and> pluginId = pluginId'"
proof -
  let ?d = "CHR ''-''"
  let ?r = "(nm @ ?d # fileHash) @ ?d # pluginId"
  let ?r' = "(nm' @ ?d # fileHash') @ ?d # pluginId'"
  from eq have e1: "fmt @ ?d # ?r = fmt' @ ?d # ?r'" by (simp add: legacyID_def)
  have "int (length fmt) = indexOfChar (fmt @ ?d # ?r) ?d"
    using d(1) by (rule indexOfChar_first [symmetric])
  also have "\<dots> = int (length fmt')"
    unfolding e1 using d'(1) by (rule indexOfChar_first)
  finally have l1: "length fmt = length fmt'" by simp
  have "fmt = fmt' \<and> ?d # ?r = ?d # ?r'"
    using e1 l1 append_eq_append_conv [of fmt fmt' "?d # ?r" "?d # ?r'"] by blast
  then have f: "fmt = fmt'" and r: "?r = ?r'" by simp_all
  have "int (length (nm @ ?d # fileHash)) = lastIndexOfChar ?r ?d"
    using d(3) by (rule lastIndexOfChar_last [symmetric])
  also have "\<dots> = int (length (nm' @ ?d # fileHash'))"
    unfolding r using d'(3) by (rule lastIndexOfChar_last)
  finally have l2: "length (nm @ ?d # fileHash) = length (nm' @ ?d # fileHash')" by simp
  have "nm @ ?d # fileHash = nm' @ ?d # fileHash' \<and> ?d # pluginId = ?d # pluginId'"
    using r l2 append_eq_append_conv [of "nm @ ?d # fileHash" "nm' @ ?d # fileHash'"
        "?d # pluginId" "?d # pluginId'"] by blast
  then have n: "nm @ ?d # fileHash = nm' @ ?d # fileHash'" and p: "pluginId = pluginId'"
    by simp_all
  have "int (length nm) = lastIndexOfChar (nm @ ?d # fileHash) ?d"
    using d(2) by (rule lastIndexOfChar_last [symmetric])
  also have "\<dots> = int (length nm')"
    unfolding n using d'(2) by (rule lastIndexOfChar_last)
  finally have l3: "length nm = length nm'" by simp
  have "nm = nm' \<and> ?d # fileHash = ?d # fileHash'"
    using n l3 append_eq_append_conv [of nm nm' "?d # fileHash" "?d # fileHash'"] by blast
  with f p show ?thesis by simp
qed

text \<open>
  C4, as amended. \<open>convertJUCEtoAGPluginID\<close> answers
  \<open>format-name-pluginId\<close> exactly for the identifiers of the form
  \<open>format-name-fileHash-pluginId\<close> whose format is \<open>AudioUnit\<close>, \<open>VST\<close> or
  \<open>VST3\<close>, whose file hash consists of hexadecimal digits in lower or upper case,
  and whose last segment, which is not examined, contains no dash. For every other
  identifier the answer is the empty text.
\<close>

theorem convertJUCEtoAGPluginID_legacy:
  "(\<exists>fmt nm fileHash pluginId.
      legacyParts ident fmt nm fileHash pluginId
      \<and> convertJUCEtoAGPluginID ident = canonicalID fmt nm pluginId)
   \<or> ((\<nexists>fmt nm fileHash pluginId. legacyParts ident fmt nm fileHash pluginId)
      \<and> convertJUCEtoAGPluginID ident = [])"
proof (cases "\<exists>fmt nm fileHash pluginId. legacyParts ident fmt nm fileHash pluginId")
  case True
  then show ?thesis using convert_legacy by blast
next
  case False
  then have "convertJUCEtoAGPluginID ident = []" using convert_nonempty by blast
  with False show ?thesis by blast
qed

lemma convert_example_legacy:
  "convertJUCEtoAGPluginID ''VST3-MyComp-deadbeef-12345678'' = ''VST3-MyComp-12345678''"
  by (simp add: convertJUCEtoAGPluginID_def lastIndexOfChar_def substring_def
      substringFrom_def toLowerCase_def toLowerChar_def notHexChar_def Let_def)

lemma convert_example_format:
  "convertJUCEtoAGPluginID ''AAX-Foo-abcd-00000001'' = []"
  by (simp add: convertJUCEtoAGPluginID_def substring_def Let_def)

lemma convert_example_hash:
  "convertJUCEtoAGPluginID ''VST-Foo-ZZZZ-00000001'' = []"
  by (simp add: convertJUCEtoAGPluginID_def lastIndexOfChar_def substring_def
      substringFrom_def toLowerCase_def toLowerChar_def notHexChar_def Let_def)

lemma canonicalID_nonempty: "canonicalID fmt nm pluginId \<noteq> []"
  by (simp add: canonicalID_def)

text \<open>
  The theorem at the identifiers of the three scenarios: the first has the four
  segments and is converted, the other two have no such segments and give the
  empty text.
\<close>

theorem convertJUCEtoAGPluginID_legacy_witness:
  "(\<exists>fmt nm fileHash pluginId.
      legacyParts ''VST3-MyComp-deadbeef-12345678'' fmt nm fileHash pluginId
      \<and> ''VST3-MyComp-12345678'' = canonicalID fmt nm pluginId)
   \<and> (\<nexists>fmt nm fileHash pluginId. legacyParts ''AAX-Foo-abcd-00000001'' fmt nm fileHash pluginId)
   \<and> (\<nexists>fmt nm fileHash pluginId. legacyParts ''VST-Foo-ZZZZ-00000001'' fmt nm fileHash pluginId)"
  using convertJUCEtoAGPluginID_legacy [of "''VST3-MyComp-deadbeef-12345678''"]
    convertJUCEtoAGPluginID_legacy [of "''AAX-Foo-abcd-00000001''"]
    convertJUCEtoAGPluginID_legacy [of "''VST-Foo-ZZZZ-00000001''"]
  unfolding convert_example_legacy convert_example_format convert_example_hash
  using canonicalID_nonempty by (metis list.distinct(1))

text \<open>
  C4 as stated fails: the identifier \<open>VST-Foo-ABCD-00000001\<close> has the file hash
  \<open>ABCD\<close>, which is not lower-case hexadecimal, and is converted all the same,
  because the source lowers the case of the file hash before it tests the digits.
\<close>

theorem convertJUCEtoAGPluginID_uppercase_hash:
  "''VST-Foo-ABCD-00000001'' = legacyID ''VST'' ''Foo'' ''ABCD'' ''00000001''
   \<and> \<not> list_all hexDigitLowerCase ''ABCD''
   \<and> convertJUCEtoAGPluginID ''VST-Foo-ABCD-00000001'' = ''VST-Foo-00000001''"
  by (simp add: convertJUCEtoAGPluginID_def lastIndexOfChar_def substring_def
      substringFrom_def toLowerCase_def toLowerChar_def notHexChar_def Let_def
      legacyID_def hexDigitLowerCase_def)

section \<open>Loading a wrapper twice\<close>

text \<open>
  A first call of \<open>load\<close> on the example wrapper finds the plugin in the catalog,
  stores it, and counts it.
\<close>

lemma load_example:
  "load exampleApp emptyChain 0 exampleProcessor [] =
     (True, [], loadedProcessor, emptyChain, 1)"
  by (simp add: load_def loadPlugin_def findPluginDescritpion_def exampleApp_def
      exampleDescription_def exampleProcessor_def loadedProcessor_def emptyChain_def
      examplePlugin_def stereoLayout_def createPluginID_def toHexString_def hexDigit_def
      convertJUCEtoAGPluginID_def substring_def Let_def initPluginInstance_def
      setProcessorBusesLayout_def checkAndSetBusesLayout_def)

text \<open>
  C1, as amended. On a wrapper whose plugin handle is set, \<open>load\<close> changes neither
  the wrapper nor the chain nor the error text, leaves the counter of loaded plugins
  as it is, and returns \<open>false\<close>.
\<close>

theorem load_already_loaded:
  "m_plugin proc = Some p \<Longrightarrow>
   load app chain loadedCount proc err = (False, err, proc, chain, loadedCount)"
  by (simp add: load_def)

theorem load_already_loaded_witness:
  "m_plugin loadedProcessor = Some examplePlugin
   \<and> load exampleApp emptyChain 1 loadedProcessor [] = (False, [], loadedProcessor, emptyChain, 1)"
  using load_already_loaded [of loadedProcessor examplePlugin exampleApp emptyChain 1 "[]"]
  by (simp add: loadedProcessor_def)

text \<open>
  C1 as stated fails: the second call on the example wrapper does not return
  success. The flag \<open>loaded\<close> of the source starts as \<open>false\<close> and is only set
  inside the branch that runs when no plugin is held.
\<close>

theorem load_already_loaded_returns_false:
  "m_plugin loadedProcessor \<noteq> None
   \<and> \<not> fst (load exampleApp emptyChain 1 loadedProcessor [])"
  by (simp add: load_def loadedProcessor_def)

section \<open>The layout built by updateChannels\<close>

text \<open>
  With more than two sidechain channels and a main input, the sidechain bus of the
  layout is the discrete set of as many channels as the main input has.
\<close>

lemma updateChannels_layout_sidechain:
  "2 < channelsSC \<Longrightarrow> 0 < channelsIn \<Longrightarrow>
   getChannelSet (updateChannels_layout channelsIn channelsOut channelsSC) True 1
     = DiscreteChannels channelsIn"
  by (simp add: updateChannels_layout_def getChannelSet_def arrayGet_def)

text \<open>
  C2 does not hold of the code. For two input channels, two output channels and four
  sidechain channels the chain accepts the layout, and its input bus 1 is the
  discrete set of two channels, the count of the main input, where the claim has four.
\<close>

theorem updateChannels_sidechain_uses_channelsIn:
  "getChannelSet (chainBusesLayout (snd (updateChannels (\<lambda>layout. True) emptyChain 2 2 4))) True 1
     = DiscreteChannels 2
   \<and> channelSetSize
        (getChannelSet (chainBusesLayout (snd (updateChannels (\<lambda>layout. True) emptyChain 2 2 4)))
           True 1) = 2"
  by (simp add: updateChannels_def updateChannels_layout_def emptyChain_def
      getChannelSet_def arrayGet_def)

section \<open>The aggregates of the chain\<close>

lemma int32_in_range: "- 2147483648 \<le> x \<Longrightarrow> x < 2147483648 \<Longrightarrow> int32 x = x"
  by (simp add: int32_def)

lemma int32_bounds: "- 2147483648 \<le> int32 x \<and> int32 x < 2147483648"
  by (simp add: int32_def)

lemma int32_add_left: "int32 (int32 a + b) = int32 (a + b)"
proof -
  have e: "int32 a + b + 2147483648 = (a + 2147483648) mod 4294967296 + b"
    by (simp add: int32_def)
  have c: "a + 2147483648 + b = a + b + 2147483648" by simp
  have "(int32 a + b + 2147483648) mod 4294967296
      = ((a + 2147483648) mod 4294967296 + b) mod 4294967296"
    by (simp only: e)
  also have "\<dots> = (a + 2147483648 + b) mod 4294967296"
    by (rule mod_add_left_eq)
  also have "\<dots> = (a + b + 2147483648) mod 4294967296"
    by (simp only: c)
  finally have m: "(int32 a + b + 2147483648) mod 4294967296
      = (a + b + 2147483648) mod 4294967296" .
  have "int32 (int32 a + b) = (int32 a + b + 2147483648) mod 4294967296 - 2147483648"
    by (rule int32_def)
  also have "\<dots> = (a + b + 2147483648) mod 4294967296 - 2147483648"
    by (simp only: m)
  also have "\<dots> = int32 (a + b)"
    by (rule int32_def [symmetric])
  finally show ?thesis .
qed

lemma updateNoLock_loop_latency:
  "fst (updateNoLock_loop hs procs (lat, sd, ex, scd)) =
     (if loadedProcessors procs = [] then lat
      else int32 (lat + (\<Sum>proc\<leftarrow>loadedProcessors procs. getLatencySamples (the (m_plugin proc)))))"
proof (induction procs arbitrary: lat sd ex scd)
  case Nil
  then show ?case by (simp add: loadedProcessors_def)
next
  case (Cons proc procs)
  show ?case
  proof (cases "m_plugin proc")
    case None
    then have "loadedProcessors (proc # procs) = loadedProcessors procs"
      by (simp add: loadedProcessors_def)
    with None Cons show ?thesis by simp
  next
    case (Some p)
    then have L: "loadedProcessors (proc # procs) = proc # loadedProcessors procs"
      by (simp add: loadedProcessors_def)
    show ?thesis
      using Some Cons [of "int32 (lat + getLatencySamples p)"]
      by (simp add: L int32_add_left add.assoc)
  qed
qed

lemma updateNoLock_loop_double:
  "fst (snd (updateNoLock_loop hs procs (lat, sd, ex, scd))) \<longleftrightarrow>
     sd \<and> (\<forall>proc\<in>set (loadedProcessors procs). supportsDoublePrecisionProcessing (the (m_plugin proc)))"
  by (induction procs arbitrary: lat sd ex scd)
     (auto simp: loadedProcessors_def split: option.splits)

lemma Max_insert_max3:
  fixes a :: int
  assumes "finite S"
  shows "Max (insert (max a (max b c)) S) = Max (insert a (insert b (insert c S)))"
proof (cases "S = {}")
  case True
  then show ?thesis by simp
next
  case False
  with assms show ?thesis by (simp add: max.assoc)
qed

lemma updateNoLock_loop_extra:
  "fst (snd (snd (updateNoLock_loop hs procs (lat, sd, ex, scd)))) =
     Max (insert ex (m_extraInChannels ` set (loadedProcessors procs)
                     \<union> m_extraOutChannels ` set (loadedProcessors procs)))"
proof (induction procs arbitrary: lat sd ex scd)
  case Nil
  then show ?case by (simp add: loadedProcessors_def)
next
  case (Cons proc procs)
  let ?L = "loadedProcessors procs"
  let ?S = "m_extraInChannels ` set ?L \<union> m_extraOutChannels ` set ?L"
  have fin: "finite ?S" by simp
  show ?case
  proof (cases "m_plugin proc")
    case None
    then have "loadedProcessors (proc # procs) = ?L" by (simp add: loadedProcessors_def)
    with None Cons show ?thesis by simp
  next
    case (Some p)
    then have L: "loadedProcessors (proc # procs) = proc # ?L" by (simp add: loadedProcessors_def)
    have "Max (insert (jmax3 ex (m_extraInChannels proc) (m_extraOutChannels proc)) ?S)
        = Max (insert ex (insert (m_extraInChannels proc) (insert (m_extraOutChannels proc) ?S)))"
      unfolding jmax3_def using fin by (rule Max_insert_max3)
    moreover have "insert ex (insert (m_extraInChannels proc) (insert (m_extraOutChannels proc) ?S))
        = insert ex (m_extraInChannels ` set (proc # ?L) \<union> m_extraOutChannels ` set (proc # ?L))"
      by auto
    ultimately show ?thesis using Some Cons L by simp
  qed
qed

lemma updateNoLock_loop_sidechain:
  "(scd \<longrightarrow> hs) \<Longrightarrow>
   snd (snd (snd (updateNoLock_loop hs procs (lat, sd, ex, scd)))) \<longleftrightarrow>
     hs \<and> (scd \<or> (\<exists>proc\<in>set (loadedProcessors procs). m_needsDisabledSidechain proc))"
  by (induction procs arbitrary: lat sd ex scd)
     (auto simp: loadedProcessors_def split: option.splits)

lemma skipSuspended_dropWhile: "skipSuspended procs = dropWhile isSuspended procs"
  by (induction procs) auto

lemma tail_of_last_active:
  "(case skipSuspended (rev procs) of proc # rest \<Rightarrow> getTailLengthSeconds proc | [] \<Rightarrow> 0) =
   (if activeProcessors procs = [] then 0 else getTailLengthSeconds (last (activeProcessors procs)))"
  by (induction procs rule: rev_induct)
     (auto simp: skipSuspended_dropWhile activeProcessors_def)

text \<open>
  C5, as amended. After \<open>updateNoLock\<close> the latency of the chain is the sum of the
  latencies of the loaded plugins as 32-bit signed arithmetic gives it, which is the
  sum itself whenever the sum fits in 32 bits; double precision is supported when every loaded
  plugin supports it, \<open>m_extraChannels\<close> is the greatest of zero and the extra input
  and output channels of the wrappers that hold a plugin, the sidechain is disabled
  when the chain has one and some wrapper that holds a plugin needs it disabled, and
  the tail is the tail of the last wrapper that is not suspended, or zero when there
  is none. The processors stay as they are. An empty chain has latency zero, tail
  zero and supports double precision.
\<close>

theorem updateNoLock_aggregates:
  "chainLatencySamples (updateNoLock chain) =
     int32 (\<Sum>proc\<leftarrow>loadedProcessors (m_processors chain). getLatencySamples (the (m_plugin proc)))
   \<and> (- 2147483648 \<le>
          (\<Sum>proc\<leftarrow>loadedProcessors (m_processors chain). getLatencySamples (the (m_plugin proc)))
        \<and> (\<Sum>proc\<leftarrow>loadedProcessors (m_processors chain). getLatencySamples (the (m_plugin proc)))
          < 2147483648
        \<longrightarrow> chainLatencySamples (updateNoLock chain) =
          (\<Sum>proc\<leftarrow>loadedProcessors (m_processors chain). getLatencySamples (the (m_plugin proc))))
   \<and> (m_supportsDoublePrecission (updateNoLock chain) \<longleftrightarrow>
        (\<forall>proc\<in>set (loadedProcessors (m_processors chain)).
           supportsDoublePrecisionProcessing (the (m_plugin proc))))
   \<and> m_extraChannels (updateNoLock chain) =
        Max (insert 0 (m_extraInChannels ` set (loadedProcessors (m_processors chain))
                       \<union> m_extraOutChannels ` set (loadedProcessors (m_processors chain))))
   \<and> (m_sidechainDisabled (updateNoLock chain) \<longleftrightarrow>
        m_hasSidechain chain
        \<and> (\<exists>proc\<in>set (loadedProcessors (m_processors chain)). m_needsDisabledSidechain proc))
   \<and> m_tailSecs (updateNoLock chain) =
        (if activeProcessors (m_processors chain) = [] then 0
         else getTailLengthSeconds (last (activeProcessors (m_processors chain))))
   \<and> m_processors (updateNoLock chain) = m_processors chain
   \<and> (m_processors chain = [] \<longrightarrow>
        chainLatencySamples (updateNoLock chain) = 0
        \<and> m_tailSecs (updateNoLock chain) = 0
        \<and> m_supportsDoublePrecission (updateNoLock chain))"
proof -
  obtain lat sd ex scd where
    l: "updateNoLock_loop (m_hasSidechain chain) (m_processors chain) (0, True, 0, False) = (lat, sd, ex, scd)"
    by (metis prod_cases4)
  have 1: "lat = int32 (\<Sum>proc\<leftarrow>loadedProcessors (m_processors chain). getLatencySamples (the (m_plugin proc)))"
    using updateNoLock_loop_latency [of "m_hasSidechain chain" "m_processors chain" 0 True 0 False] l
    by (simp add: int32_def split: if_splits)
  have fits: "- 2147483648 \<le>
          (\<Sum>proc\<leftarrow>loadedProcessors (m_processors chain). getLatencySamples (the (m_plugin proc)))
        \<and> (\<Sum>proc\<leftarrow>loadedProcessors (m_processors chain). getLatencySamples (the (m_plugin proc)))
          < 2147483648
        \<longrightarrow> lat =
          (\<Sum>proc\<leftarrow>loadedProcessors (m_processors chain). getLatencySamples (the (m_plugin proc)))"
    unfolding 1 using int32_in_range by blast
  have 2: "sd \<longleftrightarrow> (\<forall>proc\<in>set (loadedProcessors (m_processors chain)).
           supportsDoublePrecisionProcessing (the (m_plugin proc)))"
    using updateNoLock_loop_double [of "m_hasSidechain chain" "m_processors chain" 0 True 0 False] l by simp
  have 3: "ex = Max (insert 0 (m_extraInChannels ` set (loadedProcessors (m_processors chain))
                       \<union> m_extraOutChannels ` set (loadedProcessors (m_processors chain))))"
    using updateNoLock_loop_extra [of "m_hasSidechain chain" "m_processors chain" 0 True 0 False] l by simp
  have 4: "scd \<longleftrightarrow> m_hasSidechain chain
        \<and> (\<exists>proc\<in>set (loadedProcessors (m_processors chain)). m_needsDisabledSidechain proc)"
    using updateNoLock_loop_sidechain [of False "m_hasSidechain chain" "m_processors chain" 0 True 0] l by simp
  have u: "updateNoLock chain = chain\<lparr>m_extraChannels := ex,
               m_sidechainDisabled := scd,
               chainLatencySamples := lat,
               m_supportsDoublePrecission := sd,
               m_tailSecs := (if activeProcessors (m_processors chain) = [] then 0
         else getTailLengthSeconds (last (activeProcessors (m_processors chain))))\<rparr>"
    by (simp add: updateNoLock_def l tail_of_last_active)
  have e: "m_processors chain = [] \<Longrightarrow> lat = 0 \<and> sd"
    using l by auto
  show ?thesis
    unfolding u using 1 fits 2 3 4 e by (simp add: activeProcessors_def)
qed


text \<open>
  The theorem at a chain with the stereo plugin of latency 64 followed by the mono
  plugin of latency 128, which cannot process in double precision.
\<close>

theorem updateNoLock_aggregates_witness:
  "chainLatencySamples (updateNoLock twoPluginChain) = 192
   \<and> \<not> m_supportsDoublePrecission (updateNoLock twoPluginChain)
   \<and> m_extraChannels (updateNoLock twoPluginChain) = 0
   \<and> \<not> m_sidechainDisabled (updateNoLock twoPluginChain)
   \<and> m_tailSecs (updateNoLock twoPluginChain) = 0
   \<and> chainLatencySamples (updateNoLock emptyChain) = 0
   \<and> m_tailSecs (updateNoLock emptyChain) = 0
   \<and> m_supportsDoublePrecission (updateNoLock emptyChain)"
  using updateNoLock_aggregates [of twoPluginChain] updateNoLock_aggregates [of emptyChain]
  by (simp add: twoPluginChain_def emptyChain_def loadedProcessors_def activeProcessors_def
      loadedProcessor_def exampleProcessor_def examplePlugin_def monoPlugin_def int32_def)

text \<open>
  The mono plugin in the stereo chain: the negotiation falls back to the plugin's own
  layout and records one channel less than the session has, on both sides.
\<close>

lemma load_mono:
  "load monoApp emptyChain 0 exampleProcessor [] =
     (True, [], monoProcessor, emptyChain, 1)"
  by (simp add: load_def loadPlugin_def findPluginDescritpion_def monoApp_def
      exampleDescription_def exampleProcessor_def monoProcessor_def emptyChain_def
      monoPlugin_def stereoLayout_def monoLayout_def createPluginID_def toHexString_def
      hexDigit_def convertJUCEtoAGPluginID_def substring_def Let_def initPluginInstance_def
      setProcessorBusesLayout_def checkAndSetBusesLayout_def getMainInputChannels_def
      getMainOutputChannels_def getChannelSet_def arrayGet_def extraBusChannels_def jmax3_def)

text \<open>
  C5 as stated fails for \<open>extraChannels\<close>: the chain that holds only this wrapper has
  \<open>m_extraChannels = 0\<close>, while the extra input and output channels of its one
  wrapper are both \<open>-1\<close>, so that their maximum is \<open>-1\<close>. The loop of the source
  starts its maximum at zero. It fails for the latency too when the sum leaves the
  32 bits: the plugin latencies 2147483647 and 1 have the sum 2147483648, and the
  chain reports \<open>-2147483648\<close>.
\<close>

theorem updateNoLock_extraChannels_floor:
  "m_processors (addProcessor emptyChain monoProcessor) = [monoProcessor]
   \<and> m_plugin monoProcessor \<noteq> None
   \<and> m_extraInChannels monoProcessor = -1
   \<and> m_extraOutChannels monoProcessor = -1
   \<and> m_extraChannels (addProcessor emptyChain monoProcessor) = 0
   \<and> map (\<lambda>proc. getLatencySamples (the (m_plugin proc))) (loadedProcessors (m_processors overflowChain))
       = [2147483647, 1]
   \<and> chainLatencySamples (updateNoLock overflowChain) = - 2147483648"
proof -
  have a: "m_processors (addProcessor emptyChain monoProcessor) = [monoProcessor]
     \<and> m_plugin monoProcessor \<noteq> None
     \<and> m_extraInChannels monoProcessor = -1
     \<and> m_extraOutChannels monoProcessor = -1
     \<and> m_extraChannels (addProcessor emptyChain monoProcessor) = 0"
    by (simp add: addProcessor_def updateNoLock_def emptyChain_def monoProcessor_def
        exampleProcessor_def jmax3_def int32_def)
  have b: "map (\<lambda>proc. getLatencySamples (the (m_plugin proc)))
        (loadedProcessors (m_processors overflowChain)) = [2147483647, 1]"
    by (simp add: overflowChain_def loadedProcessors_def)
  have c: "chainLatencySamples (updateNoLock overflowChain) = - 2147483648"
    by (simp add: updateNoLock_def overflowChain_def emptyChain_def int32_def)
  from a b c show ?thesis by blast
qed

section \<open>Positions and chain indices\<close>

lemma updateNoLock_processors: "m_processors (updateNoLock chain) = m_processors chain"
  by (simp add: updateNoLock_def split_def Let_def)

lemma addProcessor_indices:
  "chainIndicesMatch (m_processors chain) \<Longrightarrow>
   chainIndicesMatch (m_processors (addProcessor chain processor))"
  by (simp add: addProcessor_def updateNoLock_processors chainIndicesMatch_def)

lemma chainIndicesMatch_nth:
  "chainIndicesMatch procs \<longleftrightarrow> (\<forall>k < length procs. m_chainIdx (procs ! k) = int k)"
  unfolding chainIndicesMatch_def list_eq_iff_nth_eq by simp

lemma chainIdx_update_same: 
  assumes "m_chainIdx r = v" shows "r\<lparr>m_chainIdx := v\<rparr> = r"
proof -
  have "r\<lparr>m_chainIdx := m_chainIdx r\<rparr> = r" by simp
  with assms show ?thesis by simp
qed

lemma exchange_length:
  "length (m_processors (exchangeProcessors chain idxA idxB)) = length (m_processors chain)"
  by (simp add: exchangeProcessors_def Let_def)

lemma exchange_frame:
  "exchangeProcessors chain idxA idxB =
     chain\<lparr>m_processors := m_processors (exchangeProcessors chain idxA idxB)\<rparr>"
  by (simp add: exchangeProcessors_def Let_def)

lemma exchange_frame_update:
  "(exchangeProcessors chain idxA idxB)\<lparr>m_processors := procs\<rparr> = chain\<lparr>m_processors := procs\<rparr>"
  by (simp add: exchangeProcessors_def Let_def)

lemma exchange_nth:
  assumes "inRange (m_processors chain) idxA" "inRange (m_processors chain) idxB"
    and "k < length (m_processors chain)"
  shows "m_processors (exchangeProcessors chain idxA idxB) ! k =
     (if k = nat idxB then (m_processors chain ! nat idxA)\<lparr>m_chainIdx := idxB\<rparr>
      else if k = nat idxA then (m_processors chain ! nat idxB)\<lparr>m_chainIdx := idxA\<rparr>
      else m_processors chain ! k)"
proof -
  have r: "idxA > -1" "nat idxA < length (m_processors chain)"
      "idxB > -1" "nat idxB < length (m_processors chain)"
    using assms by (simp_all add: inRange_def)
  show ?thesis
  proof (cases "nat idxA = nat idxB")
    case True
    with r assms(3) show ?thesis
      by (simp add: exchangeProcessors_def Let_def nth_list_update)
  next
    case False
    with r assms(3) show ?thesis
      by (simp add: exchangeProcessors_def Let_def nth_list_update)
  qed
qed

lemma exchange_out_of_range:
  "\<not> (inRange (m_processors chain) idxA \<and> inRange (m_processors chain) idxB) \<Longrightarrow>
   exchangeProcessors chain idxA idxB = chain"
  by (auto simp: exchangeProcessors_def Let_def inRange_def)

lemma exchangeProcessors_indices:
  assumes "chainIndicesMatch (m_processors chain)"
  shows "chainIndicesMatch (m_processors (exchangeProcessors chain idxA idxB))"
proof (cases "inRange (m_processors chain) idxA \<and> inRange (m_processors chain) idxB")
  case False
  then show ?thesis using assms by (simp add: exchange_out_of_range)
next
  case True
  then have a: "int (nat idxA) = idxA" and b: "int (nat idxB) = idxB"
    by (simp_all add: inRange_def)
  show ?thesis
    unfolding chainIndicesMatch_nth exchange_length
  proof (intro allI impI)
    fix k assume k: "k < length (m_processors chain)"
    from assms k have old: "m_chainIdx (m_processors chain ! k) = int k"
      by (simp add: chainIndicesMatch_nth)
    show "m_chainIdx (m_processors (exchangeProcessors chain idxA idxB) ! k) = int k"
      using True k old a b by (simp add: exchange_nth)
  qed
qed

lemma exchange_twice:
  assumes "inRange (m_processors chain) idxA" "inRange (m_processors chain) idxB"
      "m_chainIdx (m_processors chain ! nat idxA) = idxA"
      "m_chainIdx (m_processors chain ! nat idxB) = idxB"
  shows "exchangeProcessors (exchangeProcessors chain idxA idxB) idxA idxB = chain"
proof -
  let ?ps = "m_processors chain"
  let ?c1 = "exchangeProcessors chain idxA idxB"
  have rA: "inRange (m_processors ?c1) idxA" and rB: "inRange (m_processors ?c1) idxB"
    using assms(1,2) by (simp_all add: inRange_def exchange_length)
  have lA: "nat idxA < length ?ps" and lB: "nat idxB < length ?ps"
    using assms(1,2) by (simp_all add: inRange_def)
  have "m_processors (exchangeProcessors ?c1 idxA idxB) = ?ps"
  proof (rule nth_equalityI)
    show "length (m_processors (exchangeProcessors ?c1 idxA idxB)) = length ?ps"
      by (simp add: exchange_length)
  next
    fix k assume "k < length (m_processors (exchangeProcessors ?c1 idxA idxB))"
    then have k: "k < length ?ps" by (simp add: exchange_length)
    then have k1: "k < length (m_processors ?c1)" by (simp add: exchange_length)
    show "m_processors (exchangeProcessors ?c1 idxA idxB) ! k = ?ps ! k"
      unfolding exchange_nth [OF rA rB k1]
      using assms lA lB k
      by (simp add: exchange_nth chainIdx_update_same)
  qed
  then have "exchangeProcessors ?c1 idxA idxB = ?c1\<lparr>m_processors := ?ps\<rparr>"
    using exchange_frame [of ?c1 idxA idxB] by simp
  then show ?thesis by (simp add: exchange_frame_update)
qed

lemma exchange_same:
  assumes "inRange (m_processors chain) idx"
      "m_chainIdx (m_processors chain ! nat idx) = idx"
  shows "exchangeProcessors chain idx idx = chain"
proof -
  have "m_processors (exchangeProcessors chain idx idx) = m_processors chain"
  proof (rule nth_equalityI)
    show "length (m_processors (exchangeProcessors chain idx idx)) = length (m_processors chain)"
      by (simp add: exchange_length)
  next
    fix k assume "k < length (m_processors (exchangeProcessors chain idx idx))"
    then have k: "k < length (m_processors chain)" by (simp add: exchange_length)
    show "m_processors (exchangeProcessors chain idx idx) ! k = m_processors chain ! k"
      using assms k by (simp add: exchange_nth chainIdx_update_same)
  qed
  then have "exchangeProcessors chain idx idx = chain\<lparr>m_processors := m_processors chain\<rparr>"
    using exchange_frame [of chain idx idx] by simp
  then show ?thesis by simp
qed


text \<open>
  The loop of \<open>delProcessor\<close> removes the wrapper at an index in range and nothing
  at any other index; the wrappers that stay are not touched.
\<close>

lemma delProcessor_loop_closed:
  "delProcessor_loop procs i idx =
     (if i \<le> idx \<and> idx < i + int (length procs)
      then take (nat (idx - i)) procs @ drop (Suc (nat (idx - i))) procs
      else procs)"
proof (induction procs arbitrary: i)
  case Nil
  then show ?case by simp
next
  case (Cons proc procs)
  show ?case
  proof (cases "i = idx")
    case True
    then show ?thesis by simp
  next
    case False
    have "i + 1 \<le> idx \<Longrightarrow> nat (idx - i) = Suc (nat (idx - (i + 1)))" by simp
    then show ?thesis using False Cons.IH [of "i + 1"] by auto
  qed
qed

lemma delProcessor_processors:
  "m_processors (delProcessor chain idx) =
     (if inRange (m_processors chain) idx
      then take (nat idx) (m_processors chain) @ drop (Suc (nat idx)) (m_processors chain)
      else m_processors chain)"
  by (auto simp: delProcessor_def updateNoLock_processors delProcessor_loop_closed inRange_def)

text \<open>
  \<open>addProcessor\<close> and \<open>exchangeProcessors\<close> keep the chain indices in step with the
  positions (lemmas \<open>addProcessor_indices\<close> and \<open>exchangeProcessors_indices\<close>).
  \<open>delProcessor\<close> erases the wrapper and assigns no index.

  C3 does not hold of the code for \<open>delProcessor\<close>. Two wrappers are added to the
  empty chain and receive the indices 0 and 1; after \<open>delProcessor 0\<close> the one
  wrapper that remains is at position 0 and still has index 1.
\<close>

theorem delProcessor_stale_chainIndex:
  "chainIndicesMatch
     (m_processors (addProcessor (addProcessor emptyChain loadedProcessor) loadedProcessor))
   \<and> map m_chainIdx
        (m_processors
          (delProcessor (addProcessor (addProcessor emptyChain loadedProcessor) loadedProcessor) 0))
      = [1]
   \<and> \<not> chainIndicesMatch
        (m_processors
          (delProcessor (addProcessor (addProcessor emptyChain loadedProcessor) loadedProcessor) 0))"
  by (simp add: chainIndicesMatch_def delProcessor_def addProcessor_def
      updateNoLock_processors emptyChain_def)

text \<open>
  Exchanging twice, on any chain: the wrappers are back at their positions, and the
  two exchanged wrappers carry these positions as their chain indices.
\<close>

lemma exchange_twice_nth:
  assumes "inRange (m_processors chain) idxA" "inRange (m_processors chain) idxB"
    and "k < length (m_processors chain)"
  shows "m_processors (exchangeProcessors (exchangeProcessors chain idxA idxB) idxA idxB) ! k =
     (if k = nat idxB then (m_processors chain ! k)\<lparr>m_chainIdx := idxB\<rparr>
      else if k = nat idxA then (m_processors chain ! k)\<lparr>m_chainIdx := idxA\<rparr>
      else m_processors chain ! k)"
proof -
  let ?c1 = "exchangeProcessors chain idxA idxB"
  have rA: "inRange (m_processors ?c1) idxA" and rB: "inRange (m_processors ?c1) idxB"
    using assms(1,2) by (simp_all add: inRange_def exchange_length)
  have lA: "nat idxA < length (m_processors chain)" and lB: "nat idxB < length (m_processors chain)"
    using assms(1,2) by (simp_all add: inRange_def)
  have k1: "k < length (m_processors ?c1)" using assms(3) by (simp add: exchange_length)
  show ?thesis
    unfolding exchange_nth [OF rA rB k1]
    using assms lA lB by (simp add: exchange_nth)
qed

lemma exchange_twice_ordering:
  "map (\<lambda>proc. proc\<lparr>m_chainIdx := 0\<rparr>)
     (m_processors (exchangeProcessors (exchangeProcessors chain idxA idxB) idxA idxB))
   = map (\<lambda>proc. proc\<lparr>m_chainIdx := 0\<rparr>) (m_processors chain)"
proof (cases "inRange (m_processors chain) idxA \<and> inRange (m_processors chain) idxB")
  case False
  then show ?thesis by (simp add: exchange_out_of_range)
next
  case True
  show ?thesis
  proof (rule nth_equalityI)
    show "length (map (\<lambda>proc. proc\<lparr>m_chainIdx := 0\<rparr>)
        (m_processors (exchangeProcessors (exchangeProcessors chain idxA idxB) idxA idxB)))
      = length (map (\<lambda>proc. proc\<lparr>m_chainIdx := 0\<rparr>) (m_processors chain))"
      by (simp add: exchange_length)
  next
    fix k assume "k < length (map (\<lambda>proc. proc\<lparr>m_chainIdx := 0\<rparr>)
        (m_processors (exchangeProcessors (exchangeProcessors chain idxA idxB) idxA idxB)))"
    then have k: "k < length (m_processors chain)" by (simp add: exchange_length)
    then show "map (\<lambda>proc. proc\<lparr>m_chainIdx := 0\<rparr>)
        (m_processors (exchangeProcessors (exchangeProcessors chain idxA idxB) idxA idxB)) ! k
      = map (\<lambda>proc. proc\<lparr>m_chainIdx := 0\<rparr>) (m_processors chain) ! k"
      using True by (simp add: exchange_length exchange_twice_nth)
  qed
qed

text \<open>
  C8 does not hold of the code on a chain that \<open>delProcessor\<close> has left with chain
  indices that no longer match the positions. Three wrappers are added and the first
  is deleted, so that the wrappers at the positions 0 and 1 have the indices 1 and 2.
  Exchanging 0 and 1 twice puts the wrappers back in their order but leaves them
  with the indices 0 and 1, not with the values they had before the first call, and
  exchanging 0 with itself changes the chain. On a chain whose two wrappers carry
  their positions the double exchange gives the chain back and the exchange of a
  position with itself changes nothing (lemmas \<open>exchange_twice\<close> and
  \<open>exchange_same\<close>); an index out of range leaves every chain unchanged (lemma
  \<open>exchange_out_of_range\<close>).
\<close>

theorem exchangeProcessors_stale_index:
  "map m_chainIdx (m_processors staleChain) = [1, 2]
   \<and> map m_chainIdx
        (m_processors (exchangeProcessors (exchangeProcessors staleChain 0 1) 0 1)) = [0, 1]
   \<and> map (\<lambda>proc. proc\<lparr>m_chainIdx := 0\<rparr>)
        (m_processors (exchangeProcessors (exchangeProcessors staleChain 0 1) 0 1))
      = map (\<lambda>proc. proc\<lparr>m_chainIdx := 0\<rparr>) (m_processors staleChain)
   \<and> exchangeProcessors staleChain 0 0 \<noteq> staleChain"
proof -
  have s: "m_processors staleChain =
      [loadedProcessor\<lparr>m_chainIdx := 1\<rparr>, loadedProcessor\<lparr>m_chainIdx := 2\<rparr>]"
    by (simp add: staleChain_def delProcessor_def addProcessor_def
        updateNoLock_processors emptyChain_def)
  have r: "inRange (m_processors staleChain) 0" "inRange (m_processors staleChain) 1"
    by (simp_all add: s inRange_def)
  have "m_chainIdx (m_processors (exchangeProcessors staleChain 0 0) ! 0) = 0"
    using r by (simp add: exchange_nth s)
  moreover have "m_chainIdx (m_processors staleChain ! 0) = 1"
    by (simp add: s)
  ultimately have "exchangeProcessors staleChain 0 0 \<noteq> staleChain" by force
  moreover have "map m_chainIdx
        (m_processors (exchangeProcessors (exchangeProcessors staleChain 0 1) 0 1)) = [0, 1]"
    by (simp add: exchangeProcessors_def Let_def s)
  moreover note exchange_twice_ordering [of staleChain 0 1]
  moreover have "map m_chainIdx (m_processors staleChain) = [1, 2]" by (simp add: s)
  ultimately show ?thesis by blast
qed

section \<open>Bypass\<close>

lemma bypassSamples_closed:
  "bypassSamples buf xs = (drop (length xs) (buf @ xs), take (length xs) (buf @ xs))"
proof (induction xs arbitrary: buf)
  case Nil
  then show ?case by simp
next
  case (Cons x xs)
  show ?case
  proof (cases buf)
    case Nil
    then show ?thesis using Cons [of "[]"] by simp
  next
    case (Cons b bs)
    then show ?thesis using Cons.IH [of "bs @ [x]"] by simp
  qed
qed

lemma clearChannel_length: "length (clearChannel i buffer) = length buffer"
  by (simp add: clearChannel_def)

lemma clearChannel_nth:
  "c < length buffer \<Longrightarrow>
   clearChannel i buffer ! c = (if c = i then replicate (length (buffer ! c)) 0 else buffer ! c)"
  by (simp add: clearChannel_def nth_list_update)

lemma fold_clearChannel_length: "length (fold clearChannel [lo ..< hi] buffer) = length buffer"
  by (induction hi) (simp_all add: clearChannel_length)

lemma fold_clearChannel_nth:
  "c < length buffer \<Longrightarrow>
   fold clearChannel [lo ..< hi] buffer ! c =
     (if lo \<le> c \<and> c < hi then replicate (length (buffer ! c)) 0 else buffer ! c)"
proof (induction hi)
  case 0
  then show ?case by simp
next
  case (Suc hi)
  show ?case
  proof (cases "lo \<le> hi")
    case False
    then show ?thesis by auto
  next
    case True
    then have "fold clearChannel [lo ..< Suc hi] buffer =
        clearChannel hi (fold clearChannel [lo ..< hi] buffer)" by simp
    then show ?thesis
      using Suc True
      by (auto simp: clearChannel_nth fold_clearChannel_length less_Suc_eq)
  qed
qed

lemma fold_bypassChannel:
  assumes "n \<le> length fifos" "n \<le> length buffer"
  shows "length (fst (fold bypassChannel [0 ..< n] (fifos, buffer))) = length fifos
    \<and> length (snd (fold bypassChannel [0 ..< n] (fifos, buffer))) = length buffer
    \<and> (\<forall>c < length fifos. fst (fold bypassChannel [0 ..< n] (fifos, buffer)) ! c =
          (if c < n then fst (bypassSamples (fifos ! c) (buffer ! c)) else fifos ! c))
    \<and> (\<forall>c < length buffer. snd (fold bypassChannel [0 ..< n] (fifos, buffer)) ! c =
          (if c < n then snd (bypassSamples (fifos ! c) (buffer ! c)) else buffer ! c))"
  using assms
proof (induction n)
  case 0
  then show ?case by simp
next
  case (Suc n)
  obtain fs bs where st: "fold bypassChannel [0 ..< n] (fifos, buffer) = (fs, bs)"
    by (cases "fold bypassChannel [0 ..< n] (fifos, buffer)")
  from Suc have n: "n < length fifos" "n < length buffer" by simp_all
  from Suc.IH n st have lf: "length fs = length fifos" and lb: "length bs = length buffer"
    and nf: "\<And>c. c < length fifos \<Longrightarrow>
        fs ! c = (if c < n then fst (bypassSamples (fifos ! c) (buffer ! c)) else fifos ! c)"
    and nb: "\<And>c. c < length buffer \<Longrightarrow>
        bs ! c = (if c < n then snd (bypassSamples (fifos ! c) (buffer ! c)) else buffer ! c)"
    by simp_all
  have fn: "fs ! n = fifos ! n" and bn: "bs ! n = buffer ! n"
    using nf [OF n(1)] nb [OF n(2)] by simp_all
  have step: "fold bypassChannel [0 ..< Suc n] (fifos, buffer) =
      (fs[n := fst (bypassSamples (fifos ! n) (buffer ! n))],
       bs[n := snd (bypassSamples (fifos ! n) (buffer ! n))])"
    by (simp add: st bypassChannel_def fn bn split_def Let_def)
  show ?case
    unfolding step using lf lb nf nb n
    by (auto simp: nth_list_update less_Suc_eq)
qed

lemma channelSetSize_nonneg: "0 \<le> channelSetSize s"
  by (cases s) simp_all

lemma totalIn_nonneg: "0 \<le> getTotalNumInputChannels chain"
  unfolding getTotalNumInputChannels_def
  by (rule sum_list_nonneg) (auto simp: channelSetSize_nonneg)

lemma totalOut_nonneg: "0 \<le> getTotalNumOutputChannelsOfChain chain"
  unfolding getTotalNumOutputChannelsOfChain_def
  by (rule sum_list_nonneg) (auto simp: channelSetSize_nonneg)

text \<open>
  What \<open>processBlockBypassed\<close> does to the channels when the wrapper has a FIFO
  for each output channel that the buffer holds.
\<close>

lemma processBlockBypassed_on_enough:
  assumes ti: "0 \<le> totalIn" and to: "0 \<le> totalOut"
    and enough: "min totalOut (int (length buffer)) \<le> int (length fifos)"
  shows "length (fst (processBlockBypassed_on totalIn totalOut fifos buffer)) = length fifos
    \<and> length (snd (processBlockBypassed_on totalIn totalOut fifos buffer)) = length buffer
    \<and> (\<forall>c < length fifos. fst (processBlockBypassed_on totalIn totalOut fifos buffer) ! c =
          (if int c < totalOut \<and> c < length buffer
           then (if int c < totalIn
                 then drop (length (buffer ! c)) (fifos ! c @ buffer ! c)
                 else drop (length (buffer ! c)) (fifos ! c @ replicate (length (buffer ! c)) 0))
           else fifos ! c))
    \<and> (\<forall>c < length buffer. snd (processBlockBypassed_on totalIn totalOut fifos buffer) ! c =
          (if int c < totalOut
           then (if int c < totalIn
                 then take (length (buffer ! c)) (fifos ! c @ buffer ! c)
                 else take (length (buffer ! c)) (fifos ! c @ replicate (length (buffer ! c)) 0))
           else buffer ! c))"
proof -
  define numChannels where "numChannels = int (length buffer)"
  define tin where "tin = (if totalIn > numChannels then numChannels else totalIn)"
  define tout where "tout = (if totalOut > numChannels then numChannels else totalOut)"
  define buffer1 where "buffer1 = fold clearChannel [nat tin ..< nat tout] buffer"
  have tout_le: "nat tout \<le> length buffer" "nat tout \<le> length fifos"
    using enough to by (auto simp: tout_def numChannels_def min_def split: if_splits)
  have l1: "length buffer1 = length buffer"
    by (simp add: buffer1_def fold_clearChannel_length)
  have b1: "\<And>c. c < length buffer \<Longrightarrow> buffer1 ! c =
      (if nat tin \<le> c \<and> c < nat tout then replicate (length (buffer ! c)) 0 else buffer ! c)"
    by (simp add: buffer1_def fold_clearChannel_nth)
  have ne: "\<not> int (length fifos) < tout"
    using enough by (auto simp: tout_def numChannels_def min_def split: if_splits)
  have run: "processBlockBypassed_on totalIn totalOut fifos buffer =
      fold bypassChannel [0 ..< nat tout] (fifos, buffer1)"
    using ne
    by (simp add: processBlockBypassed_on_def Let_def numChannels_def [symmetric]
        tin_def [symmetric] tout_def [symmetric] buffer1_def [symmetric])
  note fb = fold_bypassChannel [of "nat tout" fifos buffer1, unfolded l1, OF tout_le(2) tout_le(1)]
  have in_out: "\<And>c. c < length buffer \<Longrightarrow> (c < nat tout) = (int c < totalOut)"
    using to by (auto simp: tout_def numChannels_def)
  have in_in: "\<And>c. c < length buffer \<Longrightarrow> (nat tin \<le> c) = (\<not> int c < totalIn)"
    using ti by (auto simp: tin_def numChannels_def)
  have lenb1: "\<And>c. c < length buffer \<Longrightarrow> length (buffer1 ! c) = length (buffer ! c)"
    by (simp add: b1)
  show ?thesis
    unfolding run
  proof (intro conjI allI impI)
    show "length (fst (fold bypassChannel [0..<nat tout] (fifos, buffer1))) = length fifos"
      using fb by simp
    show "length (snd (fold bypassChannel [0..<nat tout] (fifos, buffer1))) = length buffer"
      using fb by simp
  next
    fix c assume c: "c < length fifos"
    show "fst (fold bypassChannel [0..<nat tout] (fifos, buffer1)) ! c =
          (if int c < totalOut \<and> c < length buffer
           then (if int c < totalIn
                 then drop (length (buffer ! c)) (fifos ! c @ buffer ! c)
                 else drop (length (buffer ! c)) (fifos ! c @ replicate (length (buffer ! c)) 0))
           else fifos ! c)"
    proof (cases "c < length buffer")
      case True
      then show ?thesis
        using fb c b1 [OF True] in_out [OF True] in_in [OF True]
        by (simp add: bypassSamples_closed)
    next
      case False
      then have "\<not> c < nat tout" using tout_le by simp
      then show ?thesis using fb c False by simp
    qed
  next
    fix c assume c: "c < length buffer"
    show "snd (fold bypassChannel [0..<nat tout] (fifos, buffer1)) ! c =
          (if int c < totalOut
           then (if int c < totalIn
                 then take (length (buffer ! c)) (fifos ! c @ buffer ! c)
                 else take (length (buffer ! c)) (fifos ! c @ replicate (length (buffer ! c)) 0))
           else buffer ! c)"
      using fb c b1 [OF c] in_out [OF c] in_in [OF c]
      by (simp add: bypassSamples_closed)
  qed
qed

lemma processBlockBypassed_fst:
  "fst (processBlockBypassed chain proc buffer) =
     proc\<lparr>m_bypassBufferF :=
       fst (processBlockBypassed_on (getTotalNumInputChannels chain)
             (getTotalNumOutputChannelsOfChain chain) (m_bypassBufferF proc) buffer)\<rparr>"
  by (simp add: processBlockBypassed_def split_def Let_def)

lemma processBlockBypassed_snd:
  "snd (processBlockBypassed chain proc buffer) =
     snd (processBlockBypassed_on (getTotalNumInputChannels chain)
           (getTotalNumOutputChannelsOfChain chain) (m_bypassBufferF proc) buffer)"
  by (simp add: processBlockBypassed_def split_def Let_def)

text \<open>
  C6, as amended. Let the wrapper have at least as many FIFOs as the output channels
  of the chain that the buffer holds, each FIFO holding \<open>lastKnownLatency = L\<close>
  zeros. Then every channel of the buffer that lies below both the input and the
  output channel count of the chain is delayed by \<open>L\<close> samples: sample \<open>s\<close> of the
  output is zero for \<open>s < L\<close> and the input sample \<open>s - L\<close> from there on.
\<close>

theorem processBlockBypassed_delay:
  assumes "0 \<le> m_lastKnownLatency proc"
    and "\<forall>k < length (m_bypassBufferF proc).
           m_bypassBufferF proc ! k = replicate (nat (m_lastKnownLatency proc)) 0"
    and "min (getTotalNumOutputChannelsOfChain chain) (int (length buffer))
           \<le> int (length (m_bypassBufferF proc))"
    and "c < length buffer"
    and "int c < getTotalNumInputChannels chain"
    and "int c < getTotalNumOutputChannelsOfChain chain"
  shows "snd (processBlockBypassed chain proc buffer) ! c =
           take (length (buffer ! c)) (replicate (nat (m_lastKnownLatency proc)) 0 @ buffer ! c)
    \<and> length (snd (processBlockBypassed chain proc buffer) ! c) = length (buffer ! c)
    \<and> (\<forall>s < length (buffer ! c).
          snd (processBlockBypassed chain proc buffer) ! c ! s =
            (if int s < m_lastKnownLatency proc then 0
             else buffer ! c ! (s - nat (m_lastKnownLatency proc))))"
proof -
  let ?L = "nat (m_lastKnownLatency proc)"
  note e = processBlockBypassed_on_enough [OF totalIn_nonneg totalOut_nonneg assms(3)]
  have cf: "c < length (m_bypassBufferF proc)" using assms(3,4,6) by simp
  have out: "snd (processBlockBypassed chain proc buffer) ! c =
      take (length (buffer ! c)) (replicate ?L 0 @ buffer ! c)"
    using e assms(2,4,5,6) cf by (simp add: processBlockBypassed_snd)
  have "\<And>s. s < length (buffer ! c) \<Longrightarrow>
      take (length (buffer ! c)) (replicate ?L 0 @ buffer ! c) ! s =
        (if int s < m_lastKnownLatency proc then 0 else buffer ! c ! (s - ?L))"
    using assms(1) by (auto simp: nth_append)
  with out show ?thesis by simp
qed

text \<open>
  The impulse of the scenario: latency 4, and the channel 0 of the buffer holds
  \<open>[1,0,0,0,0,0,0,0]\<close>; the output on that channel is \<open>[0,0,0,0,1,0,0,0]\<close>.
\<close>

theorem processBlockBypassed_delay_witness:
  "0 \<le> m_lastKnownLatency bypassProcessor
   \<and> m_bypassBufferF bypassProcessor
       = [replicate (nat (m_lastKnownLatency bypassProcessor)) 0,
          replicate (nat (m_lastKnownLatency bypassProcessor)) 0]
   \<and> min (getTotalNumOutputChannelsOfChain monoToStereoChain) (int (length [impulse, impulse]))
         \<le> int (length (m_bypassBufferF bypassProcessor))
   \<and> int 0 < getTotalNumInputChannels monoToStereoChain
   \<and> int 0 < getTotalNumOutputChannelsOfChain monoToStereoChain
   \<and> snd (processBlockBypassed monoToStereoChain bypassProcessor [impulse, impulse]) ! 0
       = [0, 0, 0, 0, 1, 0, 0, 0]"
proof -
  have h1: "0 \<le> m_lastKnownLatency bypassProcessor"
    by (simp add: bypassProcessor_def)
  have h2: "\<forall>k < length (m_bypassBufferF bypassProcessor).
         m_bypassBufferF bypassProcessor ! k = replicate (nat (m_lastKnownLatency bypassProcessor)) 0"
    by (simp add: bypassProcessor_def less_Suc_eq numeral_2_eq_2 numeral_eq_Suc)
  have h3: "min (getTotalNumOutputChannelsOfChain monoToStereoChain) (int (length [impulse, impulse]))
         \<le> int (length (m_bypassBufferF bypassProcessor))"
    by (simp add: bypassProcessor_def monoToStereoChain_def getTotalNumOutputChannelsOfChain_def)
  have h4: "(0::nat) < length [impulse, impulse]" by simp
  have h5: "int 0 < getTotalNumInputChannels monoToStereoChain"
    by (simp add: monoToStereoChain_def getTotalNumInputChannels_def)
  have h6: "int 0 < getTotalNumOutputChannelsOfChain monoToStereoChain"
    by (simp add: monoToStereoChain_def getTotalNumOutputChannelsOfChain_def)
  have "snd (processBlockBypassed monoToStereoChain bypassProcessor [impulse, impulse]) ! 0
       = take (length ([impulse, impulse] ! 0))
           (replicate (nat (m_lastKnownLatency bypassProcessor)) 0 @ [impulse, impulse] ! 0)"
    using processBlockBypassed_delay [OF h1 h2 h3 h4 h5 h6] by simp
  also have "\<dots> = [0, 0, 0, 0, 1, 0, 0, 0]"
    by (simp add: bypassProcessor_def impulse_def numeral_eq_Suc)
  finally have out:
    "snd (processBlockBypassed monoToStereoChain bypassProcessor [impulse, impulse]) ! 0
       = [0, 0, 0, 0, 1, 0, 0, 0]" .
  have h2': "m_bypassBufferF bypassProcessor
       = [replicate (nat (m_lastKnownLatency bypassProcessor)) 0,
          replicate (nat (m_lastKnownLatency bypassProcessor)) 0]"
    by (simp add: bypassProcessor_def numeral_eq_Suc)
  from h1 h2' h3 h5 h6 out show ?thesis by blast
qed

text \<open>
  C6 as stated fails in two ways. A channel from the input channel count up to the
  output channel count is cleared before the FIFOs run, so the impulse on channel 1 of
  the chain with one input and two outputs gives silence. And a wrapper without FIFOs
  has nothing but FIFOs of the right length, yet the buffer is cleared.
\<close>

theorem processBlockBypassed_not_delayed:
  "snd (processBlockBypassed monoToStereoChain bypassProcessor [impulse, impulse]) ! 1
     = [0, 0, 0, 0, 0, 0, 0, 0]
   \<and> snd (processBlockBypassed monoToStereoChain (bypassProcessor\<lparr>m_bypassBufferF := []\<rparr>)
            [impulse, impulse]) ! 0
     = [0, 0, 0, 0, 0, 0, 0, 0]"
proof -
  have tin: "getTotalNumInputChannels monoToStereoChain = 1"
    by (simp add: monoToStereoChain_def getTotalNumInputChannels_def)
  have tout: "getTotalNumOutputChannelsOfChain monoToStereoChain = 2"
    by (simp add: monoToStereoChain_def getTotalNumOutputChannelsOfChain_def)
  have f: "m_bypassBufferF bypassProcessor = [[0, 0, 0, 0], [0, 0, 0, 0]]"
    by (simp add: bypassProcessor_def)
  have "min 2 (int (length [impulse, impulse])) \<le> int (length [[0, 0, 0, 0], [0, 0, 0, 0::real]])"
    by simp
  note e = processBlockBypassed_on_enough [of 1 2 "[impulse, impulse]" "[[0, 0, 0, 0], [0, 0, 0, 0]]",
      OF _ _ this]
  have a: "snd (processBlockBypassed monoToStereoChain bypassProcessor [impulse, impulse]) ! 1
     = [0, 0, 0, 0, 0, 0, 0, 0]"
    using e by (simp add: processBlockBypassed_snd tin tout f impulse_def numeral_eq_Suc)
  have u: "[1 ..< 2] = [1::nat]" "[0 ..< 2] = [0::nat, 1]"
    by (simp_all add: upt_rec)
  have b: "snd (processBlockBypassed monoToStereoChain (bypassProcessor\<lparr>m_bypassBufferF := []\<rparr>)
            [impulse, impulse]) ! 0 = [0, 0, 0, 0, 0, 0, 0, 0]"
    by (simp add: processBlockBypassed_snd tin tout processBlockBypassed_on_def u
        clearChannel_def impulse_def numeral_eq_Suc)
  from a b show ?thesis by simp
qed

text \<open>
  C10. When the wrapper has at least as many FIFOs as the chain has output channels
  and each of these is empty, \<open>processBlockBypassed\<close> leaves the channels below the
  input channel count as they are, leaves the channels from the input channel count
  up to the output channel count filled with zeros, and leaves each of these FIFOs
  empty. This holds whatever \<open>lastKnownLatency\<close> is, so also when it is zero.
\<close>

theorem processBlockBypassed_zero_latency:
  assumes "getTotalNumOutputChannelsOfChain chain \<le> int (length (m_bypassBufferF proc))"
    and "\<forall>k. int k < getTotalNumOutputChannelsOfChain chain \<longrightarrow> m_bypassBufferF proc ! k = []"
  shows "length (snd (processBlockBypassed chain proc buffer)) = length buffer
    \<and> (\<forall>c < length buffer.
          (int c < getTotalNumInputChannels chain \<longrightarrow>
             snd (processBlockBypassed chain proc buffer) ! c = buffer ! c)
        \<and> (getTotalNumInputChannels chain \<le> int c
             \<and> int c < getTotalNumOutputChannelsOfChain chain \<longrightarrow>
             snd (processBlockBypassed chain proc buffer) ! c = replicate (length (buffer ! c)) 0))
    \<and> length (m_bypassBufferF (fst (processBlockBypassed chain proc buffer)))
        = length (m_bypassBufferF proc)
    \<and> (\<forall>k. int k < getTotalNumOutputChannelsOfChain chain \<longrightarrow>
          m_bypassBufferF (fst (processBlockBypassed chain proc buffer)) ! k = [])"
proof -
  have enough: "min (getTotalNumOutputChannelsOfChain chain) (int (length buffer))
      \<le> int (length (m_bypassBufferF proc))"
    using assms(1) by simp
  note e = processBlockBypassed_on_enough [OF totalIn_nonneg totalOut_nonneg enough]
  have kf: "\<And>k. int k < getTotalNumOutputChannelsOfChain chain \<Longrightarrow> k < length (m_bypassBufferF proc)"
    using assms(1) by simp
  show ?thesis
  proof (intro conjI allI impI)
    show "length (snd (processBlockBypassed chain proc buffer)) = length buffer"
      using e by (simp add: processBlockBypassed_snd)
    show "length (m_bypassBufferF (fst (processBlockBypassed chain proc buffer)))
        = length (m_bypassBufferF proc)"
      using e by (simp add: processBlockBypassed_fst)
  next
    fix c assume "c < length buffer" "int c < getTotalNumInputChannels chain"
    then show "snd (processBlockBypassed chain proc buffer) ! c = buffer ! c"
      using e assms(2) by (simp add: processBlockBypassed_snd)
  next
    fix c assume "c < length buffer"
      "getTotalNumInputChannels chain \<le> int c \<and> int c < getTotalNumOutputChannelsOfChain chain"
    then show "snd (processBlockBypassed chain proc buffer) ! c = replicate (length (buffer ! c)) 0"
      using e assms(2) by (simp add: processBlockBypassed_snd)
  next
    fix k assume k: "int k < getTotalNumOutputChannelsOfChain chain"
    then show "m_bypassBufferF (fst (processBlockBypassed chain proc buffer)) ! k = []"
      using e assms(2) kf [OF k] by (simp add: processBlockBypassed_fst)
  qed
qed

text \<open>
  The theorem at the chain with one input and two output channels and a buffer of two
  channels: channel 0 passes, channel 1 is cleared, and both FIFOs are empty afterwards.
\<close>

theorem processBlockBypassed_zero_latency_witness:
  "getTotalNumOutputChannelsOfChain monoToStereoChain
     \<le> int (length (m_bypassBufferF (bypassProcessor\<lparr>m_lastKnownLatency := 0, m_bypassBufferF := [[], []]\<rparr>)))
   \<and> m_bypassBufferF (bypassProcessor\<lparr>m_lastKnownLatency := 0, m_bypassBufferF := [[], []]\<rparr>)
       = [[], []]
   \<and> snd (processBlockBypassed monoToStereoChain
            (bypassProcessor\<lparr>m_lastKnownLatency := 0, m_bypassBufferF := [[], []]\<rparr>)
            [[1, 2, 3], [4, 5, 6]]) ! 0 = [1, 2, 3]
   \<and> snd (processBlockBypassed monoToStereoChain
            (bypassProcessor\<lparr>m_lastKnownLatency := 0, m_bypassBufferF := [[], []]\<rparr>)
            [[1, 2, 3], [4, 5, 6]]) ! 1 = [0, 0, 0]
   \<and> m_bypassBufferF (fst (processBlockBypassed monoToStereoChain
            (bypassProcessor\<lparr>m_lastKnownLatency := 0, m_bypassBufferF := [[], []]\<rparr>)
            [[1, 2, 3], [4, 5, 6]])) ! 0 = []
   \<and> m_bypassBufferF (fst (processBlockBypassed monoToStereoChain
            (bypassProcessor\<lparr>m_lastKnownLatency := 0, m_bypassBufferF := [[], []]\<rparr>)
            [[1, 2, 3], [4, 5, 6]])) ! 1 = []"
proof -
  let ?p = "bypassProcessor\<lparr>m_lastKnownLatency := 0, m_bypassBufferF := [[], []]\<rparr>"
  have tin: "getTotalNumInputChannels monoToStereoChain = 1"
    by (simp add: monoToStereoChain_def getTotalNumInputChannels_def)
  have tout: "getTotalNumOutputChannelsOfChain monoToStereoChain = 2"
    by (simp add: monoToStereoChain_def getTotalNumOutputChannelsOfChain_def)
  have h1: "getTotalNumOutputChannelsOfChain monoToStereoChain \<le> int (length (m_bypassBufferF ?p))"
    by (simp add: tout)
  have h2: "\<forall>k. int k < getTotalNumOutputChannelsOfChain monoToStereoChain \<longrightarrow>
         m_bypassBufferF ?p ! k = []"
    by (auto simp: tout nth_Cons split: nat.splits)
  note t = processBlockBypassed_zero_latency [OF h1 h2, of "[[1, 2, 3], [4, 5, 6]]", unfolded tin tout]
  note tb = t [THEN conjunct2, THEN conjunct1, rule_format]
  note tf = t [THEN conjunct2, THEN conjunct2, THEN conjunct2, rule_format]
  have c0: "snd (processBlockBypassed monoToStereoChain ?p [[1, 2, 3], [4, 5, 6]]) ! 0 = [1, 2, 3]"
    using tb [of 0] by simp
  have c1: "snd (processBlockBypassed monoToStereoChain ?p [[1, 2, 3], [4, 5, 6]]) ! 1 = [0, 0, 0]"
    using tb [of 1] by simp
  have f0: "m_bypassBufferF (fst (processBlockBypassed monoToStereoChain ?p [[1, 2, 3], [4, 5, 6]])) ! 0 = []"
    using tf [of 0] by simp
  have f1: "m_bypassBufferF (fst (processBlockBypassed monoToStereoChain ?p [[1, 2, 3], [4, 5, 6]])) ! 1 = []"
    using tf [of 1] by simp
  have h2': "m_bypassBufferF ?p = [[], []]" by simp
  from h1 h2' c0 c1 f0 f1 show ?thesis by blast
qed

section \<open>Recents\<close>

lemma getRecentsList_loop_concat:
  "getRecentsList_loop createString rs list =
     list @ concat (map (\<lambda>r. createString r @ [CHR 0x0A]) rs)"
  by (induction rs arbitrary: list) simp_all

lemma arrayRemoveLast_take:
  "0 < k \<Longrightarrow> k \<le> int (length xs) \<Longrightarrow> arrayRemoveLast xs k = take (length xs - nat k) xs"
  by (simp add: arrayRemoveLast_def)

lemma recents_front:
  assumes "0 < numRecents"
  shows "\<exists>m. 0 < m \<and> int m \<le> numRecents
     \<and> (let rs2 = plug # rs1; toRemove = int (length rs2) - numRecents
        in (if toRemove > 0 then arrayRemoveLast rs2 toRemove else rs2)) = take m (plug # rs1)"
proof (cases "int (length (plug # rs1)) - numRecents > 0")
  case True
  let ?rs2 = "plug # rs1"
  let ?k = "int (length ?rs2) - numRecents"
  have k: "0 < ?k" "?k \<le> int (length ?rs2)" using True assms by simp_all
  have "arrayRemoveLast ?rs2 ?k = take (length ?rs2 - nat ?k) ?rs2"
    using k by (rule arrayRemoveLast_take)
  moreover have "length ?rs2 - nat ?k = nat numRecents" using True assms by simp
  ultimately have "arrayRemoveLast ?rs2 ?k = take (nat numRecents) ?rs2" by simp
  then show ?thesis using True assms
    by (intro exI [of _ "nat numRecents"]) (simp add: Let_def)
next
  case False
  then show ?thesis
    by (intro exI [of _ "length (plug # rs1)"]) (simp add: Let_def)
qed

lemma take_front_once:
  assumes "0 < m" and "same plug plug"
  shows "take m (plug # removeAllInstancesOf same plug rs) \<noteq> []
    \<and> take m (plug # removeAllInstancesOf same plug rs) ! 0 = plug
    \<and> length (filter (same plug) (take m (plug # removeAllInstancesOf same plug rs))) = 1
    \<and> length (take m (plug # removeAllInstancesOf same plug rs)) \<le> m"
proof -
  obtain n where m: "m = Suc n" using assms(1) by (cases m) simp_all
  have "\<forall>x \<in> set (take n (removeAllInstancesOf same plug rs)). \<not> same plug x"
    using set_take_subset [of n "removeAllInstancesOf same plug rs"]
    by (auto simp: removeAllInstancesOf_def)
  then have "filter (same plug) (take n (removeAllInstancesOf same plug rs)) = []"
    by (simp add: filter_empty_conv)
  then show ?thesis using assms(2) by (simp add: m)
qed

text \<open>
  C9. When the identifier resolves in the catalog, \<open>addToRecentsList\<close> leaves the
  list of the host with the description at position 0, with no other entry equal to
  it, no longer than the configured maximum, and leaves the lists of the other hosts
  alone. The maximum \<open>DEFAULT_NUM_RECENTS\<close> is taken to be positive, and a
  description is taken to be equal to itself. \<open>getRecentsList\<close> renders each
  description of the host's list followed by a line feed, and answers the empty text
  for an unknown host.
\<close>

theorem addToRecentsList_front:
  assumes "findPluginDescritpion pluglist ident = Some plug"
    and "0 < numRecents"
    and "sameDescription plug plug"
  shows "(\<exists>rs. addToRecentsList sameDescription numRecents pluglist m_recents ident host host
             = Some rs
           \<and> rs \<noteq> [] \<and> rs ! 0 = plug \<and> length (filter (sameDescription plug) rs) = 1
           \<and> int (length rs) \<le> numRecents)
    \<and> (\<forall>h. h \<noteq> host \<longrightarrow>
          addToRecentsList sameDescription numRecents pluglist m_recents ident host h
            = m_recents h)
    \<and> getRecentsList createString m_recents host =
        (case m_recents host of
           None \<Rightarrow> []
         | Some rs \<Rightarrow> concat (map (\<lambda>r. createString r @ [CHR 0x0A]) rs))"
proof -
  let ?old = "case m_recents host of None \<Rightarrow> [] | Some l \<Rightarrow> l"
  let ?rs1 = "removeAllInstancesOf sameDescription plug ?old"
  obtain m where m: "0 < m" "int m \<le> numRecents"
    and r: "(let rs2 = plug # ?rs1; toRemove = int (length rs2) - numRecents
        in (if toRemove > 0 then arrayRemoveLast rs2 toRemove else rs2))
        = take m (plug # ?rs1)"
    using recents_front [OF assms(2), of plug ?rs1] by blast
  have a: "addToRecentsList sameDescription numRecents pluglist m_recents ident host =
      m_recents(host \<mapsto> take m (plug # ?rs1))"
    using r by (simp add: addToRecentsList_def assms(1) Let_def)
  note t = take_front_once [where same = sameDescription and plug = plug and rs = ?old,
      OF m(1) assms(3)]
  have "int (length (take m (plug # ?rs1))) \<le> numRecents"
    using t m(2) by linarith
  with t have 1: "\<exists>rs. addToRecentsList sameDescription numRecents pluglist m_recents ident host host
             = Some rs
           \<and> rs \<noteq> [] \<and> rs ! 0 = plug \<and> length (filter (sameDescription plug) rs) = 1
           \<and> int (length rs) \<le> numRecents"
    unfolding a by simp
  have 2: "\<forall>h. h \<noteq> host \<longrightarrow>
          addToRecentsList sameDescription numRecents pluglist m_recents ident host h
            = m_recents h"
    unfolding a by simp
  have 3: "getRecentsList createString m_recents host =
        (case m_recents host of
           None \<Rightarrow> []
         | Some rs \<Rightarrow> concat (map (\<lambda>r. createString r @ [CHR 0x0A]) rs))"
    by (simp add: getRecentsList_def getRecentsList_loop_concat split: option.splits)
  from 1 2 3 show ?thesis by blast
qed

lemma find_example:
  "findPluginDescritpion [exampleDescription, otherDescription] ''VST-Foo-2a'' = Some exampleDescription"
  by (simp add: findPluginDescritpion_def exampleDescription_def otherDescription_def
      createPluginID_def toHexString_def hexDigit_def convertJUCEtoAGPluginID_def
      substring_def Let_def)

lemma descriptions_differ: "otherDescription \<noteq> exampleDescription"
  by (simp add: exampleDescription_def otherDescription_def)

lemma addToRecentsList_example:
  "addToRecentsList (=) 2 [exampleDescription, otherDescription] exampleRecents ''VST-Foo-2a'' ''daw''
     = [''daw'' \<mapsto> [exampleDescription, otherDescription]]"
  using descriptions_differ
  by (auto simp: addToRecentsList_def find_example exampleRecents_def arrayRemoveLast_def
      removeAllInstancesOf_def)

text \<open>
  The theorem at the registry of the example with at most two entries per host and
  with the equality of the fields as the equality of descriptions: the first plugin
  moves to the front, and the list of the host is rendered line by line.
\<close>

theorem addToRecentsList_front_witness:
  "findPluginDescritpion [exampleDescription, otherDescription] ''VST-Foo-2a'' = Some exampleDescription
   \<and> (0::int) < 2
   \<and> exampleDescription = exampleDescription
   \<and> addToRecentsList (=) 2 [exampleDescription, otherDescription] exampleRecents ''VST-Foo-2a''
       ''daw'' ''daw''
       = Some [exampleDescription, otherDescription]
   \<and> length (filter ((=) exampleDescription) [exampleDescription, otherDescription]) = 1
   \<and> getRecentsList name exampleRecents ''daw'' = ''Bar'' @ [CHR 0x0A] @ ''Foo'' @ [CHR 0x0A]
   \<and> getRecentsList name exampleRecents ''other'' = []"
proof -
  have h: "(0::int) < 2" by simp
  have e: "exampleDescription = exampleDescription" by simp
  note t = addToRecentsList_front [where sameDescription = "(=)" and m_recents = exampleRecents
      and host = "''daw''" and createString = name, OF find_example h e]
  note u = addToRecentsList_front [where sameDescription = "(=)" and m_recents = exampleRecents
      and host = "''other''" and createString = name, OF find_example h e]
  have g1: "getRecentsList name exampleRecents ''daw'' = ''Bar'' @ [CHR 0x0A] @ ''Foo'' @ [CHR 0x0A]"
    using t by (simp add: exampleRecents_def exampleDescription_def otherDescription_def)
  have g2: "getRecentsList name exampleRecents ''other'' = []"
    using u by (simp add: exampleRecents_def)
  have c: "length (filter ((=) exampleDescription) [exampleDescription, otherDescription]) = 1"
    using t by (simp add: addToRecentsList_example)
  show ?thesis
    using find_example h g1 g2 c by (simp add: addToRecentsList_example)
qed

section \<open>Resizing the FIFOs\<close>

lemma addFifos_closed:
  "addFifos channels latency bufs =
     bufs @ replicate (nat (channels - int (length bufs))) (replicate (nat latency) 0)"
proof (induction channels latency bufs rule: addFifos.induct)
  case (1 channels latency bufs)
  show ?case
  proof (cases "int (length bufs) < channels")
    case True
    then have n: "nat (channels - int (length bufs))
        = Suc (nat (channels - int (length (bufs @ [replicate (nat latency) 0]))))"
      by simp
    show ?thesis
      using True "1.IH" [OF True]
      by (subst addFifos.simps) (simp add: n replicate_app_Cons_same del: addFifos.simps)
  next
    case False
    then show ?thesis by simp
  qed
qed

lemma growFifo_closed:
  "growFifo latency buf = buf @ replicate (nat (latency - int (length buf))) 0"
proof (induction latency buf rule: growFifo.induct)
  case (1 latency buf)
  show ?case
  proof (cases "int (length buf) < latency")
    case True
    then have n: "nat (latency - int (length buf)) = Suc (nat (latency - int (length (buf @ [0]))))"
      by simp
    show ?thesis
      using True "1.IH" [OF True]
      by (subst growFifo.simps) (simp add: n replicate_app_Cons_same del: growFifo.simps)
  next
    case False
    then show ?thesis by simp
  qed
qed

lemma arrayRemove_head: "arrayRemove buf 0 = drop 1 buf"
  by (cases buf) (simp_all add: arrayRemove_def)

lemma shrinkFifo_closed:
  assumes "0 \<le> latency"
  shows "shrinkFifo latency buf = Some (drop (length buf - nat latency) buf)"
proof (induction "length buf" arbitrary: buf)
  case 0
  then show ?case using assms by (subst shrinkFifo.simps) simp
next
  case (Suc n)
  show ?case
  proof (cases "int (length buf) > latency")
    case True
    have l: "n = length (drop 1 buf)" using Suc(2) by simp
    have "shrinkFifo latency buf = shrinkFifo latency (drop 1 buf)"
      using True by (subst shrinkFifo.simps) (simp add: arrayRemove_head)
    also have "\<dots> = Some (drop (length (drop 1 buf) - nat latency) (drop 1 buf))"
      using Suc(1) [OF l] .
    also have "drop (length (drop 1 buf) - nat latency) (drop 1 buf)
        = drop (length buf - nat latency) buf"
    proof -
      have "length buf - 1 - nat latency + 1 = length buf - nat latency"
        using True assms by linarith
      then show ?thesis by simp
    qed
    finally show ?thesis .
  next
    case False
    then show ?thesis using assms by (subst shrinkFifo.simps) simp
  qed
qed

text \<open>With a negative latency the loop that shortens a FIFO does not end.\<close>

lemma shrinkFifo_returns_nonneg:
  assumes "shrinkFifo latency buf = Some buf'"
  shows "0 \<le> latency"
proof (rule shrinkFifo.raw_induct [where P = "\<lambda>l b y. 0 \<le> l", OF _ assms])
  fix f :: "int \<Rightarrow> real list \<Rightarrow> real list option" and l b y
  assume ih: "\<And>l b y. f l b = Some y \<Longrightarrow> 0 \<le> l"
    and eq: "(if l < int (length b) then f l (arrayRemove b 0) else Some b) = Some y"
  show "0 \<le> l"
  proof (cases "l < int (length b)")
    case True
    with eq have "f l (arrayRemove b 0) = Some y" by simp
    then show ?thesis by (rule ih)
  next
    case False
    then show ?thesis by simp
  qed
qed

lemma shrinkFifo_diverges:
  assumes "latency < 0"
  shows "shrinkFifo latency buf = None"
proof (cases "shrinkFifo latency buf")
  case None
  then show ?thesis .
next
  case (Some buf')
  then have "0 \<le> latency" by (rule shrinkFifo_returns_nonneg)
  with assms show ?thesis by simp
qed

declare addFifos.simps [simp del]

declare growFifo.simps [simp del]

lemma resized_length: "length (resized n buf) = n"
  by (simp add: resized_def)

lemma resized_shrink: "n \<le> length buf \<Longrightarrow> resized n buf = drop (length buf - n) buf"
  by (simp add: resized_def)

lemma resized_grow: "length buf \<le> n \<Longrightarrow> resized n buf = buf @ replicate (n - length buf) 0"
  by (simp add: resized_def)

lemma resized_zeros: "resized n (replicate n 0) = replicate n 0"
  by (simp add: resized_def)

lemma resizeFifo_closed:
  assumes "0 \<le> latency"
  shows "resizeFifo latency buf = Some (resized (nat latency) buf)"
proof -
  have "nat (latency - int (length (drop (length buf - nat latency) buf)))
      = nat latency - length buf"
    using assms by (simp add: nat_diff_distrib')
  then show ?thesis
    by (simp add: resizeFifo_def shrinkFifo_closed [OF assms] growFifo_closed resized_def)
qed

lemma resizeFifo_diverges: "latency < 0 \<Longrightarrow> resizeFifo latency buf = None"
  by (simp add: resizeFifo_def shrinkFifo_diverges)

lemma resizeFifos_closed:
  assumes "0 \<le> latency" "distinct cs" "\<forall>c \<in> set cs. c < length bufsF \<and> c < length bufsD"
  shows "\<exists>bufsF' bufsD'. resizeFifos latency cs (bufsF, bufsD) = Some (bufsF', bufsD')
    \<and> length bufsF' = length bufsF \<and> length bufsD' = length bufsD
    \<and> (\<forall>k < length bufsF. bufsF' ! k =
          (if k \<in> set cs then resized (nat latency) (bufsF ! k) else bufsF ! k))
    \<and> (\<forall>k < length bufsD. bufsD' ! k =
          (if k \<in> set cs then resized (nat latency) (bufsD ! k) else bufsD ! k))"
  using assms(2,3)
proof (induction cs arbitrary: bufsF bufsD)
  case Nil
  then show ?case by simp
next
  case (Cons c cs)
  let ?F = "bufsF[c := resized (nat latency) (bufsF ! c)]"
  let ?D = "bufsD[c := resized (nat latency) (bufsD ! c)]"
  have step: "resizeChannel latency c (bufsF, bufsD) = Some (?F, ?D)"
    by (simp add: resizeChannel_def resizeFifo_closed [OF assms(1)])
  have d: "distinct cs" and c: "c \<notin> set cs" "c < length bufsF" "c < length bufsD"
    using Cons.prems by simp_all
  have r: "\<forall>k \<in> set cs. k < length ?F \<and> k < length ?D"
    using Cons.prems by simp
  from Cons.IH [OF d r] obtain bufsF' bufsD' where
    res: "resizeFifos latency cs (?F, ?D) = Some (bufsF', bufsD')"
    and lf: "length bufsF' = length ?F" and ld: "length bufsD' = length ?D"
    and nf: "\<forall>k < length ?F. bufsF' ! k =
          (if k \<in> set cs then resized (nat latency) (?F ! k) else ?F ! k)"
    and nd: "\<forall>k < length ?D. bufsD' ! k =
          (if k \<in> set cs then resized (nat latency) (?D ! k) else ?D ! k)"
    by blast
  have "resizeFifos latency (c # cs) (bufsF, bufsD) = Some (bufsF', bufsD')"
    by (simp add: step res)
  moreover have "\<forall>k < length bufsF. bufsF' ! k =
          (if k \<in> set (c # cs) then resized (nat latency) (bufsF ! k) else bufsF ! k)"
    using nf c by (auto simp: nth_list_update)
  moreover have "\<forall>k < length bufsD. bufsD' ! k =
          (if k \<in> set (c # cs) then resized (nat latency) (bufsD ! k) else bufsD ! k)"
    using nd c by (auto simp: nth_list_update)
  ultimately show ?case using lf ld by simp
qed

lemma resizeFifos_diverges:
  "latency < 0 \<Longrightarrow> cs \<noteq> [] \<Longrightarrow> resizeFifos latency cs st = None"
  by (cases cs; cases st) (simp_all add: resizeChannel_def resizeFifo_diverges)

lemma addFifos_length:
  "length (addFifos channels latency bufs) = max (length bufs) (nat channels)"
  by (simp add: addFifos_closed)

lemma addFifos_nth:
  "k < length (addFifos channels latency bufs) \<Longrightarrow>
   addFifos channels latency bufs ! k =
     (if k < length bufs then bufs ! k else replicate (nat latency) 0)"
  by (simp add: addFifos_closed nth_append)

text \<open>
  What a call of \<open>updateLatencyBuffers\<close> with a latency that is not negative leaves
  in the two FIFO collections.
\<close>

lemma updateLatencyBuffers_closed:
  assumes p: "m_plugin proc = Some p" and l: "0 \<le> m_lastKnownLatency proc"
  shows "\<exists>bufsF' bufsD'.
      updateLatencyBuffers proc =
        Some (Inr (proc\<lparr>m_bypassBufferF := bufsF', m_bypassBufferD := bufsD'\<rparr>))
    \<and> length bufsF' = max (length (m_bypassBufferF proc)) (nat (getTotalNumOutputChannels p))
    \<and> length bufsD' = max (length (m_bypassBufferD proc)) (nat (getTotalNumOutputChannels p))
    \<and> (\<forall>k < length bufsF'. bufsF' ! k =
          (if k < nat (getTotalNumOutputChannels p)
           then (if k < length (m_bypassBufferF proc)
                 then resized (nat (m_lastKnownLatency proc)) (m_bypassBufferF proc ! k)
                 else replicate (nat (m_lastKnownLatency proc)) 0)
           else m_bypassBufferF proc ! k))
    \<and> (\<forall>k < length bufsD'. bufsD' ! k =
          (if k < nat (getTotalNumOutputChannels p)
           then (if k < length (m_bypassBufferD proc)
                 then resized (nat (m_lastKnownLatency proc)) (m_bypassBufferD proc ! k)
                 else replicate (nat (m_lastKnownLatency proc)) 0)
           else m_bypassBufferD proc ! k))"
proof -
  let ?ch = "getTotalNumOutputChannels p"
  let ?L = "m_lastKnownLatency proc"
  let ?F = "addFifos ?ch ?L (m_bypassBufferF proc)"
  let ?D = "addFifos ?ch ?L (m_bypassBufferD proc)"
  have r: "\<forall>c \<in> set [0 ..< nat ?ch]. c < length ?F \<and> c < length ?D"
    by (auto simp: addFifos_length)
  from resizeFifos_closed [OF l _ r] obtain bufsF' bufsD' where
    res: "resizeFifos ?L [0 ..< nat ?ch] (?F, ?D) = Some (bufsF', bufsD')"
    and lf: "length bufsF' = length ?F" and ld: "length bufsD' = length ?D"
    and nf: "\<forall>k < length ?F. bufsF' ! k =
          (if k \<in> set [0 ..< nat ?ch] then resized (nat ?L) (?F ! k) else ?F ! k)"
    and nd: "\<forall>k < length ?D. bufsD' ! k =
          (if k \<in> set [0 ..< nat ?ch] then resized (nat ?L) (?D ! k) else ?D ! k)"
    by auto
  have u: "updateLatencyBuffers proc =
        Some (Inr (proc\<lparr>m_bypassBufferF := bufsF', m_bypassBufferD := bufsD'\<rparr>))"
    by (simp add: updateLatencyBuffers_def p Let_def res)
  have f: "\<forall>k < length bufsF'. bufsF' ! k =
          (if k < nat ?ch
           then (if k < length (m_bypassBufferF proc)
                 then resized (nat ?L) (m_bypassBufferF proc ! k)
                 else replicate (nat ?L) 0)
           else m_bypassBufferF proc ! k)"
    using nf lf by (auto simp: addFifos_nth addFifos_length resized_zeros)
  have d: "\<forall>k < length bufsD'. bufsD' ! k =
          (if k < nat ?ch
           then (if k < length (m_bypassBufferD proc)
                 then resized (nat ?L) (m_bypassBufferD proc ! k)
                 else replicate (nat ?L) 0)
           else m_bypassBufferD proc ! k)"
    using nd ld by (auto simp: addFifos_nth addFifos_length resized_zeros)
  have lf': "length bufsF' = max (length (m_bypassBufferF proc)) (nat ?ch)"
    using lf by (simp add: addFifos_length)
  have ld': "length bufsD' = max (length (m_bypassBufferD proc)) (nat ?ch)"
    using ld by (simp add: addFifos_length)
  from u lf' ld' f d show ?thesis by blast
qed

lemma updateLatencyBuffers_diverges:
  assumes "m_plugin proc = Some p" "m_lastKnownLatency proc < 0" "0 < getTotalNumOutputChannels p"
  shows "updateLatencyBuffers proc = None"
proof -
  have "[0 ..< nat (getTotalNumOutputChannels p)] \<noteq> []" using assms(3) by simp
  then show ?thesis
    using assms by (simp add: updateLatencyBuffers_def Let_def resizeFifos_diverges)
qed

lemma updateLatencyBuffers_no_channels:
  assumes "m_plugin proc = Some p" "getTotalNumOutputChannels p \<le> 0"
  shows "updateLatencyBuffers proc = Some (Inr proc)"
  using assms by (simp add: updateLatencyBuffers_def Let_def addFifos_closed)

lemma resizedAt_closed:
  assumes "c < length new"
    and "new ! c = (if c < length old then resized n (old ! c) else replicate n 0)"
  shows "resizedAt n old new c"
  using assms
  by (auto simp: resizedAt_def resized_length resized_shrink resized_grow)

text \<open>
  C7. On a wrapper that holds a plugin, \<open>updateLatencyBuffers\<close> returns when
  \<open>lastKnownLatency\<close> is not negative (or the plugin has no output channel), and
  whenever it returns, both FIFO collections have at least one FIFO per output
  channel of the plugin, every FIFO up to that channel count has exactly
  \<open>lastKnownLatency\<close> samples, truncated from the head or zero-padded at the tail,
  and nothing else in the wrapper has changed. With a negative latency and an output
  channel the call does not return.
\<close>

theorem updateLatencyBuffers_fifos:
  assumes "m_plugin proc = Some p"
  shows "(0 \<le> m_lastKnownLatency proc \<or> getTotalNumOutputChannels p \<le> 0 \<longrightarrow>
            (\<exists>proc'. updateLatencyBuffers proc = Some (Inr proc')))
    \<and> (\<forall>proc'. updateLatencyBuffers proc = Some (Inr proc') \<longrightarrow>
          getTotalNumOutputChannels p \<le> int (length (m_bypassBufferF proc'))
        \<and> getTotalNumOutputChannels p \<le> int (length (m_bypassBufferD proc'))
        \<and> (\<forall>c. int c < getTotalNumOutputChannels p \<longrightarrow>
              int (length (m_bypassBufferF proc' ! c)) = m_lastKnownLatency proc
            \<and> int (length (m_bypassBufferD proc' ! c)) = m_lastKnownLatency proc
            \<and> resizedAt (nat (m_lastKnownLatency proc))
                 (m_bypassBufferF proc) (m_bypassBufferF proc') c
            \<and> resizedAt (nat (m_lastKnownLatency proc))
                 (m_bypassBufferD proc) (m_bypassBufferD proc') c)
        \<and> proc'\<lparr>m_bypassBufferF := m_bypassBufferF proc,
                 m_bypassBufferD := m_bypassBufferD proc\<rparr> = proc)"
proof (intro conjI allI impI)
  assume "0 \<le> m_lastKnownLatency proc \<or> getTotalNumOutputChannels p \<le> 0"
  then show "\<exists>proc'. updateLatencyBuffers proc = Some (Inr proc')"
    using updateLatencyBuffers_closed [OF assms] updateLatencyBuffers_no_channels [OF assms]
    by blast
next
  fix proc' assume ret: "updateLatencyBuffers proc = Some (Inr proc')"
  let ?ch = "getTotalNumOutputChannels p"
  let ?L = "m_lastKnownLatency proc"
  have all: "?ch \<le> int (length (m_bypassBufferF proc'))
        \<and> ?ch \<le> int (length (m_bypassBufferD proc'))
        \<and> (\<forall>c. int c < ?ch \<longrightarrow>
              int (length (m_bypassBufferF proc' ! c)) = ?L
            \<and> int (length (m_bypassBufferD proc' ! c)) = ?L
            \<and> resizedAt (nat ?L) (m_bypassBufferF proc) (m_bypassBufferF proc') c
            \<and> resizedAt (nat ?L) (m_bypassBufferD proc) (m_bypassBufferD proc') c)
        \<and> proc'\<lparr>m_bypassBufferF := m_bypassBufferF proc,
                 m_bypassBufferD := m_bypassBufferD proc\<rparr> = proc"
  proof (cases "?ch \<le> 0")
    case True
    then have "proc' = proc"
      using ret updateLatencyBuffers_no_channels [OF assms True] by simp
    with True show ?thesis by simp
  next
    case False
    then have ch: "0 < ?ch" by simp
    have l: "0 \<le> ?L"
    proof (rule ccontr)
      assume "\<not> 0 \<le> ?L"
      then have "updateLatencyBuffers proc = None"
        using updateLatencyBuffers_diverges [OF assms _ ch] by simp
      with ret show False by simp
    qed
    from updateLatencyBuffers_closed [OF assms l] obtain bufsF' bufsD' where
      u: "updateLatencyBuffers proc =
          Some (Inr (proc\<lparr>m_bypassBufferF := bufsF', m_bypassBufferD := bufsD'\<rparr>))"
      and lf: "length bufsF' = max (length (m_bypassBufferF proc)) (nat ?ch)"
      and ld: "length bufsD' = max (length (m_bypassBufferD proc)) (nat ?ch)"
      and nf: "\<forall>k < length bufsF'. bufsF' ! k =
          (if k < nat ?ch
           then (if k < length (m_bypassBufferF proc)
                 then resized (nat ?L) (m_bypassBufferF proc ! k)
                 else replicate (nat ?L) 0)
           else m_bypassBufferF proc ! k)"
      and nd: "\<forall>k < length bufsD'. bufsD' ! k =
          (if k < nat ?ch
           then (if k < length (m_bypassBufferD proc)
                 then resized (nat ?L) (m_bypassBufferD proc ! k)
                 else replicate (nat ?L) 0)
           else m_bypassBufferD proc ! k)"
      by blast
    from ret u have p': "proc' = proc\<lparr>m_bypassBufferF := bufsF', m_bypassBufferD := bufsD'\<rparr>"
      by simp
    have rz: "\<And>c. int c < ?ch \<Longrightarrow>
        resizedAt (nat ?L) (m_bypassBufferF proc) bufsF' c
        \<and> resizedAt (nat ?L) (m_bypassBufferD proc) bufsD' c"
    proof -
      fix c assume "int c < ?ch"
      then have c: "c < nat ?ch" by simp
      then have cf: "c < length bufsF'" and cd: "c < length bufsD'" using lf ld by simp_all
      have "resizedAt (nat ?L) (m_bypassBufferF proc) bufsF' c"
        using cf nf c by (intro resizedAt_closed) simp_all
      moreover have "resizedAt (nat ?L) (m_bypassBufferD proc) bufsD' c"
        using cd nd c by (intro resizedAt_closed) simp_all
      ultimately show "resizedAt (nat ?L) (m_bypassBufferF proc) bufsF' c
        \<and> resizedAt (nat ?L) (m_bypassBufferD proc) bufsD' c" by simp
    qed
    have len: "\<And>new old c. resizedAt (nat ?L) old new c \<Longrightarrow> int (length (new ! c)) = ?L"
      using l by (simp add: resizedAt_def)
    have a1: "?ch \<le> int (length bufsF')" using lf by linarith
    have a2: "?ch \<le> int (length bufsD')" using ld by linarith
    have a3: "\<forall>c. int c < ?ch \<longrightarrow>
              int (length (bufsF' ! c)) = ?L
            \<and> int (length (bufsD' ! c)) = ?L
            \<and> resizedAt (nat ?L) (m_bypassBufferF proc) bufsF' c
            \<and> resizedAt (nat ?L) (m_bypassBufferD proc) bufsD' c"
      using rz len by blast
    show ?thesis
      unfolding p' using a1 a2 a3 by simp
  qed
  from all show "getTotalNumOutputChannels p \<le> int (length (m_bypassBufferF proc'))" by blast
  from all show "getTotalNumOutputChannels p \<le> int (length (m_bypassBufferD proc'))" by blast
  from all show "proc'\<lparr>m_bypassBufferF := m_bypassBufferF proc,
                 m_bypassBufferD := m_bypassBufferD proc\<rparr> = proc" by blast
  fix c assume "int c < ?ch"
  with all show "int (length (m_bypassBufferF proc' ! c)) = ?L"
    "int (length (m_bypassBufferD proc' ! c)) = ?L"
    "resizedAt (nat ?L) (m_bypassBufferF proc) (m_bypassBufferF proc') c"
    "resizedAt (nat ?L) (m_bypassBufferD proc) (m_bypassBufferD proc') c"
    by blast+
qed

text \<open>
  The theorem at the wrapper of latency 2 with two output channels: the \<open>float\<close> FIFO
  \<open>[1,2,3]\<close> loses its head, the \<open>double\<close> FIFO \<open>[7]\<close> gains a zero, and the
  second channel gets a new FIFO of two zeros in both collections.
\<close>

theorem updateLatencyBuffers_fifos_witness:
  "m_plugin resizeProcessor = Some examplePlugin
   \<and> 0 \<le> m_lastKnownLatency resizeProcessor
   \<and> (\<exists>proc'. updateLatencyBuffers resizeProcessor = Some (Inr proc')
        \<and> 2 \<le> length (m_bypassBufferF proc') \<and> 2 \<le> length (m_bypassBufferD proc')
        \<and> m_bypassBufferF proc' ! 0 = [2, 3] \<and> m_bypassBufferF proc' ! 1 = [0, 0]
        \<and> m_bypassBufferD proc' ! 0 = [7, 0] \<and> m_bypassBufferD proc' ! 1 = [0, 0])"
proof -
  have p: "m_plugin resizeProcessor = Some examplePlugin"
    by (simp add: resizeProcessor_def loadedProcessor_def)
  have l: "m_lastKnownLatency resizeProcessor = 2"
    and f: "m_bypassBufferF resizeProcessor = [[1, 2, 3]]"
    and d: "m_bypassBufferD resizeProcessor = [[7]]"
    by (simp_all add: resizeProcessor_def)
  have ch: "getTotalNumOutputChannels examplePlugin = 2"
    by (simp add: examplePlugin_def)
  note t = updateLatencyBuffers_fifos [OF p, unfolded l f d ch]
  from t obtain proc' where r: "updateLatencyBuffers resizeProcessor = Some (Inr proc')"
    by auto
  with t have props: "2 \<le> int (length (m_bypassBufferF proc'))"
      "2 \<le> int (length (m_bypassBufferD proc'))"
      "\<And>c. int c < 2 \<Longrightarrow> resizedAt (nat 2) [[1, 2, 3]] (m_bypassBufferF proc') c
          \<and> resizedAt (nat 2) [[7]] (m_bypassBufferD proc') c"
    by blast+
  have "m_bypassBufferF proc' ! 0 = [2, 3]" "m_bypassBufferD proc' ! 0 = [7, 0]"
    using props(3) [of 0] by (simp_all add: resizedAt_def numeral_2_eq_2)
  moreover have "m_bypassBufferF proc' ! 1 = [0, 0]" "m_bypassBufferD proc' ! 1 = [0, 0]"
    using props(3) [of 1] by (simp_all add: resizedAt_def numeral_2_eq_2)
  ultimately show ?thesis using p l r props(1,2) by auto
qed

end
